theory Spec2Isabelle
  imports Complex_Main "HOL-Library.Signed_Division"
begin

section \<open>The overlap tree store of the GK cavitation kernel\<close>

text \<open>
  This theory embeds the host-side code of \<^verbatim>\<open>CudaCalcGKCavitationForceKernel\<close>
  (\<^verbatim>\<open>AmoebaCudaKernels.cpp\<close>, \<^verbatim>\<open>AmoebaCudaKernels.h\<close>).

  Conventions of the embedding.
  \<^item> A C++ \<^verbatim>\<open>int\<close> is a HOL \<open>int\<close>; signed overflow is undefined behaviour in C++ and is
    outside the model, which therefore describes the runs on which every sum fits 32 bits.
    Integer division is the truncating \<open>sdiv\<close>. Counters that start at zero and are only
    incremented, and the sizes of vectors, are \<open>nat\<close>.
  \<^item> A \<^verbatim>\<open>float\<close> or \<^verbatim>\<open>double\<close> is a HOL \<open>real\<close>, so the values are finite
    (infinities and NaN are outside the model). The rounding of the values that are stored
    and uploaded is not modelled. The test of the common gamma in \<^verbatim>\<open>initialize\<close> decides
    between returning and throwing on rounded values: there the conversion to
    \<^verbatim>\<open>float\<close> and the \<^verbatim>\<open>double\<close> arithmetic are the operations of a parameter
    (\<open>float_arith\<close> below), and the \<^verbatim>\<open>float\<close> literal has its exact value.
  \<^item> A \<^verbatim>\<open>std::vector\<close> is a list. An access outside the vector and a division by zero
    are undefined behaviour in C++; the model makes them the results \<open>Inl Index_out_of_range\<close>
    and \<open>Inl Division_by_zero\<close>.
\<close>

datatype fault = Division_by_zero | Index_out_of_range | Null_pointer

text \<open>The host variables of \<^verbatim>\<open>class CudaOverlapTree\<close>. The device arrays of the tree are
  represented by \<open>ov_arrays\<close>: \<open>None\<close> while the pointers are \<^verbatim>\<open>NULL\<close>, and the element
  count \<^verbatim>\<open>total_tree_size\<close> of the per-node arrays once \<^verbatim>\<open>resize_tree_buffers\<close> has
  created them.\<close>

record overlap_tree =
  num_atoms :: nat
  padded_num_atoms :: nat
  total_atoms_in_tree :: nat
  total_tree_size :: int
  num_sections :: nat
  tree_size :: "int list"
  padded_tree_size :: "int list"
  atom_tree_pointer :: "int list"
  tree_pointer :: "int list"
  natoms_in_tree :: "nat list"
  first_atom :: "nat list"
  ov_arrays :: "int option"
  temp_buffer_size :: int
  tree_size_boost :: real
  has_saved_noverlaps :: bool
  saved_noverlaps :: "int list"
  hasExceededTempBuffer :: bool

text \<open>The constructor \<^verbatim>\<open>CudaOverlapTree(void)\<close>: every device pointer \<^verbatim>\<open>NULL\<close>,
  \<^verbatim>\<open>temp_buffer_size = -1\<close>, \<^verbatim>\<open>tree_size_boost = 2\<close>. The vectors are empty; the integer
  members the constructor leaves unset are given the value 0.\<close>

definition CudaOverlapTree :: overlap_tree where
  "CudaOverlapTree =
     \<lparr> num_atoms = 0, padded_num_atoms = 0, total_atoms_in_tree = 0, total_tree_size = 0,
       num_sections = 0, tree_size = [], padded_tree_size = [], atom_tree_pointer = [],
       tree_pointer = [], natoms_in_tree = [], first_atom = [], ov_arrays = None,
       temp_buffer_size = - 1, tree_size_boost = 2, has_saved_noverlaps = False,
       saved_noverlaps = [], hasExceededTempBuffer = False \<rparr>"

subsection \<open>\<^verbatim>\<open>init_tree_size\<close>, loop by loop\<close>

text \<open>Lines 228-232: \<^verbatim>\<open>noverlaps[i] = (saved_noverlaps[i] > noverlaps_current[i]) ?
  saved_noverlaps[i] : noverlaps_current[i] + 1\<close>.\<close>

definition overlap_budget :: "int list \<Rightarrow> int list \<Rightarrow> nat \<Rightarrow> int list" where
  "overlap_budget saved cur n =
     map (\<lambda>i. if saved ! i > cur ! i then saved ! i else cur ! i + 1) [0..<n]"

text \<open>Lines 238-242: \<^verbatim>\<open>noverlaps_sum[0] = 0; noverlaps_sum[i] = noverlaps[i-1] +
  noverlaps_sum[i-1]\<close>, a vector of \<^verbatim>\<open>num_atoms + 1\<close> entries.\<close>

fun prefix_sum_loop :: "int \<Rightarrow> int list \<Rightarrow> int list" where
  "prefix_sum_loop acc [] = [acc]"
| "prefix_sum_loop acc (x # xs) = acc # prefix_sum_loop (x + acc) xs"

definition noverlaps_sum :: "int list \<Rightarrow> int list" where
  "noverlaps_sum noverlaps = prefix_sum_loop 0 noverlaps"

text \<open>Lines 245-248.\<close>

definition max_n_overlaps :: "int list \<Rightarrow> int" where
  "max_n_overlaps noverlaps = fold (\<lambda>x m. if x > m then x else m) noverlaps 0"

text \<open>Lines 250-256.\<close>

definition n_overlaps_per_section :: "nat \<Rightarrow> int \<Rightarrow> int \<Rightarrow> int" where
  "n_overlaps_per_section nsections n_overlaps_total mx =
     (let p = (if nsections > 1 then n_overlaps_total sdiv (int nsections - 1)
               else n_overlaps_total)
      in if mx > p then mx else p)"

text \<open>Line 266: the section index of atom \<open>i\<close>.\<close>

definition section_index :: "int list \<Rightarrow> int \<Rightarrow> nat \<Rightarrow> int" where
  "section_index psum per_section i = (psum ! i) sdiv per_section"

text \<open>Lines 265-270: the loop over the atoms that fills \<^verbatim>\<open>compute_unit_of_atom\<close> and
  counts \<^verbatim>\<open>natoms_in_tree[section] += 1\<close>. The vector \<^verbatim>\<open>natoms_in_tree\<close> has
  \<^verbatim>\<open>num_sections\<close> entries, and the source does not check the index.\<close>

fun assign_sections ::
  "int list \<Rightarrow> int \<Rightarrow> nat list \<Rightarrow> nat list \<times> nat list \<Rightarrow> fault + (nat list \<times> nat list)" where
  "assign_sections psum per_section [] st = Inr st"
| "assign_sections psum per_section (i # rest) (compute_unit_of_atom, natoms) =
     (if per_section = 0 then Inl Division_by_zero
      else let section = section_index psum per_section i in
        if section < 0 \<or> int (length natoms) \<le> section then Inl Index_out_of_range
        else assign_sections psum per_section rest
               (compute_unit_of_atom[i := nat section],
                natoms[nat section := natoms ! nat section + 1]))"

text \<open>Lines 273-280: \<^verbatim>\<open>section_size[compute_unit_of_atom[i]] += noverlaps[i]\<close>.\<close>

definition section_sizes :: "nat list \<Rightarrow> int list \<Rightarrow> nat \<Rightarrow> int list" where
  "section_sizes compute_unit_of_atom noverlaps nsections =
     fold (\<lambda>i ss. ss[compute_unit_of_atom ! i := ss ! (compute_unit_of_atom ! i) + noverlaps ! i])
       [0..<length noverlaps] (replicate nsections 0)"

text \<open>The conversion of a \<^verbatim>\<open>double\<close> to \<^verbatim>\<open>int\<close> truncates towards zero.\<close>

definition double_to_int :: "real \<Rightarrow> int" where
  "double_to_int x = (if x < 0 then \<lceil>x\<rceil> else \<lfloor>x\<rfloor>)"

text \<open>Lines 283-286, the body of the padding loop: \<^verbatim>\<open>tsize *= tree_size_boost\<close> multiplies
  an \<^verbatim>\<open>int\<close> by a \<^verbatim>\<open>double\<close> and converts back.\<close>

definition padded_size :: "real \<Rightarrow> int \<Rightarrow> int \<Rightarrow> int" where
  "padded_size boost pad_modulo sz =
     (let tsize = (if sz < 1 then 1 else sz);
          tsize = double_to_int (real_of_int tsize * boost)
      in pad_modulo * ((tsize + pad_modulo - 1) sdiv pad_modulo))"

text \<open>Lines 290-295: \<^verbatim>\<open>tree_pointer[section] = offset; offset += section_size[section]\<close>.\<close>

fun tree_pointer_loop :: "int \<Rightarrow> int list \<Rightarrow> int list" where
  "tree_pointer_loop offset [] = []"
| "tree_pointer_loop offset (sz # szs) = offset # tree_pointer_loop (offset + sz) szs"

text \<open>Lines 307-313, the inner loop of one section: \<^verbatim>\<open>if (iat < total_atoms_in_tree)
  atom_tree_pointer[iat] = slot\<close>.\<close>

definition atom_slots :: "nat \<Rightarrow> nat \<Rightarrow> int \<Rightarrow> nat \<Rightarrow> int list \<Rightarrow> int list" where
  "atom_slots atom_offset total_atoms tp cnt atp =
     fold (\<lambda>i a. if atom_offset + i < total_atoms then a[atom_offset + i := tp + int i] else a)
       [0..<cnt] atp"

text \<open>Lines 303-316, one round of the outer loop. The state is \<^verbatim>\<open>atom_offset\<close>,
  \<^verbatim>\<open>total_tree_size\<close>, \<^verbatim>\<open>first_atom\<close> and \<^verbatim>\<open>atom_tree_pointer\<close>.\<close>

definition layout_step ::
  "nat list \<Rightarrow> int list \<Rightarrow> int list \<Rightarrow> nat \<Rightarrow> nat \<Rightarrow>
   nat \<times> int \<times> nat list \<times> int list \<Rightarrow> nat \<times> int \<times> nat list \<times> int list" where
  "layout_step natoms tp section_size total_atoms section =
     (\<lambda>(atom_offset, tts, fa, atp).
        (atom_offset + natoms ! section,
         tts + section_size ! section,
         fa[section := atom_offset],
         atom_slots atom_offset total_atoms (tp ! section) (natoms ! section) atp))"

definition layout_loop ::
  "nat list \<Rightarrow> int list \<Rightarrow> int list \<Rightarrow> nat \<Rightarrow> nat \<Rightarrow> nat \<Rightarrow> nat \<times> int \<times> nat list \<times> int list" where
  "layout_loop natoms tp section_size total_atoms nsections padded =
     fold (layout_step natoms tp section_size total_atoms) [0..<nsections]
       (0, 0, replicate nsections 0, replicate padded 0)"

text \<open>The whole of \<^verbatim>\<open>init_tree_size\<close>. The reads \<^verbatim>\<open>noverlaps_current[i]\<close> and
  \<^verbatim>\<open>saved_noverlaps[i]\<close> for \<open>i < num_atoms\<close> need vectors of that length. The inner loop
  of lines 307-313 writes \<^verbatim>\<open>atom_tree_pointer[iat]\<close> for every \<open>iat < num_atoms\<close> (the
  counts \<^verbatim>\<open>natoms_in_tree\<close> add up to \<^verbatim>\<open>num_atoms\<close>), into a vector of
  \<^verbatim>\<open>padded_num_atoms\<close> entries: the write is out of range when
  \<^verbatim>\<open>padded_num_atoms < num_atoms\<close>. The padding loop divides by \<^verbatim>\<open>pad_modulo\<close> once per
  section.\<close>

definition init_tree_size ::
  "overlap_tree \<Rightarrow> nat \<Rightarrow> nat \<Rightarrow> nat \<Rightarrow> int \<Rightarrow> int list \<Rightarrow> fault + overlap_tree" where
  "init_tree_size t n padded num_compute_units pad_modulo noverlaps_current =
     (let saved = (if has_saved_noverlaps t then saved_noverlaps t else replicate n 0) in
      if length noverlaps_current < n \<or> length saved < n then Inl Index_out_of_range
      else
        let noverlaps = overlap_budget saved noverlaps_current n;
            saved' = noverlaps @ drop n saved;
            psum = noverlaps_sum noverlaps;
            per_section =
              n_overlaps_per_section num_compute_units (psum ! n) (max_n_overlaps noverlaps)
        in case assign_sections psum per_section [0..<n]
                  (replicate n 0, replicate num_compute_units 0) of
             Inl f \<Rightarrow> Inl f
           | Inr (compute_unit_of_atom, natoms) \<Rightarrow>
               if pad_modulo = 0 \<and> 0 < num_compute_units then Inl Division_by_zero
               else if padded < n then Inl Index_out_of_range
               else
                 let section_size =
                       map (padded_size (tree_size_boost t) pad_modulo)
                         (section_sizes compute_unit_of_atom noverlaps num_compute_units);
                     tp = tree_pointer_loop 0 section_size;
                     (atom_offset, tts, fa, atp) =
                       layout_loop natoms tp section_size n num_compute_units padded
                 in Inr (t\<lparr> num_atoms := n, padded_num_atoms := padded,
                            total_atoms_in_tree := n, total_tree_size := tts,
                            num_sections := num_compute_units,
                            tree_size := replicate num_compute_units 0,
                            padded_tree_size := section_size,
                            atom_tree_pointer := atp, tree_pointer := tp,
                            natoms_in_tree := natoms, first_atom := fa,
                            has_saved_noverlaps := True, saved_noverlaps := saved' \<rparr>))"

text \<open>Names for three locals of \<^verbatim>\<open>init_tree_size\<close>, as functions of its arguments: the
  vector \<^verbatim>\<open>noverlaps\<close>, the load \<^verbatim>\<open>n_overlaps_per_section\<close> and the entry
  \<^verbatim>\<open>compute_unit_of_atom[i]\<close>; and the raw size of a section, the sum of the budgets of its
  member atoms.\<close>

definition init_noverlaps :: "overlap_tree \<Rightarrow> nat \<Rightarrow> int list \<Rightarrow> int list" where
  "init_noverlaps t n noverlaps_current =
     overlap_budget (if has_saved_noverlaps t then saved_noverlaps t else replicate n 0)
       noverlaps_current n"

definition per_section_load :: "nat \<Rightarrow> int list \<Rightarrow> int" where
  "per_section_load nsections noverlaps =
     n_overlaps_per_section nsections (noverlaps_sum noverlaps ! length noverlaps)
       (max_n_overlaps noverlaps)"

definition compute_unit_of_atom :: "nat \<Rightarrow> int list \<Rightarrow> nat \<Rightarrow> int" where
  "compute_unit_of_atom nsections noverlaps i =
     section_index (noverlaps_sum noverlaps) (per_section_load nsections noverlaps) i"

definition raw_section_size :: "nat \<Rightarrow> int list \<Rightarrow> nat \<Rightarrow> int" where
  "raw_section_size nsections noverlaps s =
     sum_list (map (\<lambda>i. noverlaps ! i)
       (filter (\<lambda>i. compute_unit_of_atom nsections noverlaps i = int s) [0..<length noverlaps]))"

text \<open>\<^verbatim>\<open>resize_tree_buffers\<close>, lines 320-423: every device array of the tree is created anew
  (the per-node arrays with \<^verbatim>\<open>total_tree_size\<close> elements); the temporary buffers get
  \<^verbatim>\<open>ov_work_group_size * num_sections * 64\<close> elements the first time and twice their size
  when \<^verbatim>\<open>hasExceededTempBuffer\<close> is set, which the function clears.\<close>

definition resize_tree_buffers :: "overlap_tree \<Rightarrow> int \<Rightarrow> overlap_tree" where
  "resize_tree_buffers t ov_work_group_size =
     (let tbs = (if temp_buffer_size t \<le> 0
                 then ov_work_group_size * int (num_sections t) * 64
                 else temp_buffer_size t);
          tbs = (if hasExceededTempBuffer t then 2 * tbs else tbs)
      in t\<lparr> ov_arrays := Some (total_tree_size t), temp_buffer_size := tbs,
             hasExceededTempBuffer := False \<rparr>)"

section \<open>The kernel object and the host context\<close>

text \<open>The force object \<^verbatim>\<open>AmoebaGKCavitationForce\<close>: per particle the radius, the
  surface-tension coefficient gamma and the hydrogen flag; the nonbonded method and the
  cutoff distance.\<close>

type_synonym particle = "real \<times> real \<times> bool"

datatype NonbondedMethod = NoCutoff | CutoffNonPeriodic | CutoffPeriodic

record gk_force =
  particles :: "particle list"
  nonbondedMethod :: NonbondedMethod
  cutoff :: real

datatype OpenMMException = OpenMMException string

text \<open>A call returns, throws an \<^verbatim>\<open>OpenMMException\<close> (the object is left as it was at
  the \<^verbatim>\<open>throw\<close>), or runs into undefined behaviour.\<close>

datatype 'a outcome = Returns 'a | Throws OpenMMException 'a | Undefined fault

text \<open>The device kernels are compiled modules outside the source; a launch is recorded by
  its name.\<close>

datatype gpu_kernel =
    resetTreeKernel | resetBufferKernel | InitOverlapTreeKernel_1body_1
  | InitOverlapTreeCountKernel | reduceovCountBufferKernel | InitOverlapTreeKernel
  | resetComputeOverlapTreeKernel | ComputeOverlapTree_1passKernel | resetSelfVolumesKernel
  | computeSelfVolumesKernel | reduceSelfVolumesKernel_buffer | updateSelfVolumesForcesKernel
  | InitOverlapTreeKernel_1body_2 | ResetRescanOverlapTreeKernel | InitRescanOverlapTreeKernel
  | RescanOverlapTreeKernel

text \<open>What the code reads of the host's \<^verbatim>\<open>CudaContext\<close> and its
  \<^verbatim>\<open>CudaNonbondedUtilities\<close>, the validity flag it sets with \<^verbatim>\<open>setForcesValid\<close>, and
  the kernels launched with \<^verbatim>\<open>executeKernel\<close>, in order.\<close>

record cuda_context =
  contexts :: nat
  numAtoms :: nat
  paddedNumAtoms :: nat
  nbUseCutoff :: bool
  interactingTilesSize :: int
  forceThreadBlockSize :: int
  numForceThreadBlocks :: nat
  forcesValid :: bool
  launched :: "gpu_kernel list"

text \<open>What one call of \<^verbatim>\<open>execute\<close> obtains from outside the source: the per-atom
  overlap counts of the CPU routine \<^verbatim>\<open>GaussVol::getstat\<close>, the two entries of the device
  array \<^verbatim>\<open>PanicButton\<close> after the construction kernels, and the contents of
  \<^verbatim>\<open>ovAtomTreePointer\<close> and \<^verbatim>\<open>ovVolEnergy\<close> downloaded after each of the two
  passes.\<close>

record device_results =
  gaussvol_noverlaps :: "int list"
  panic_values :: "int \<times> int"
  atom_pointer_1 :: "int list"
  vol_energies_1 :: "real list"
  atom_pointer_2 :: "int list"
  vol_energies_2 :: "real list"

text \<open>The members of \<^verbatim>\<open>CudaCalcGKCavitationForceKernel\<close>. A device array
  (\<^verbatim>\<open>CudaArray*\<close>) is \<open>None\<close> while it does not exist and \<open>Some\<close> of its contents
  afterwards; the nine per-atom arrays that \<^verbatim>\<open>executeInitKernels\<close> creates
  (\<^verbatim>\<open>selfVolume\<close> to \<^verbatim>\<open>grad\<close>) are represented by their element count
  \<open>atom_arrays\<close>.\<close>

record gk_kernel =
  numParticles :: nat
  useCutoff :: bool
  usePeriodic :: bool
  useExclusions :: bool
  cutoffDistance :: real
  roffset :: real
  common_gamma :: real
  maxTiles :: int
  hasInitializedKernels :: bool
  hasCreatedKernels :: bool
  ov_work_group_size :: int
  num_compute_units :: nat
  gtree :: "overlap_tree option"
  radiusParam1 :: "real list option"
  radiusParam2 :: "real list option"
  gammaParam1 :: "real list option"
  gammaParam2 :: "real list option"
  ishydrogenParam :: "int list option"
  radiusVector1 :: "real list"
  radiusVector2 :: "real list"
  gammaVector1 :: "real list"
  gammaVector2 :: "real list"
  ishydrogenVector :: "int list"
  atom_ishydrogen :: "int list"
  atom_arrays :: "nat option"
  PanicButton :: "(int \<times> int) option"
  pinnedPanicButtonMemory :: "(int \<times> int) option"
  downloadPanicButtonEvent :: bool
  gvol_force :: "gk_force option"
  niterations :: int

text \<open>The constructor, lines 182-196. The members it does not set (among them
  \<^verbatim>\<open>gtree\<close> and the five parameter arrays) are absent or zero here.\<close>

definition CudaCalcGKCavitationForceKernel :: gk_kernel where
  "CudaCalcGKCavitationForceKernel =
     \<lparr> numParticles = 0, useCutoff = False, usePeriodic = False, useExclusions = False,
       cutoffDistance = 0, roffset = 0, common_gamma = 0, maxTiles = 0,
       hasInitializedKernels = False, hasCreatedKernels = False,
       ov_work_group_size = 0, num_compute_units = 0, gtree = None,
       radiusParam1 = None, radiusParam2 = None, gammaParam1 = None, gammaParam2 = None,
       ishydrogenParam = None, radiusVector1 = [], radiusVector2 = [], gammaVector1 = [],
       gammaVector2 = [], ishydrogenVector = [], atom_ishydrogen = [], atom_arrays = None,
       PanicButton = None, pinnedPanicButtonMemory = None, downloadPanicButtonEvent = False,
       gvol_force = None, niterations = 0 \<rparr>"

text \<open>\<^verbatim>\<open>std::vector::resize\<close>: the elements present are kept, new ones are zero.\<close>

definition resize :: "nat \<Rightarrow> 'a::zero list \<Rightarrow> 'a list" where
  "resize n xs = take n xs @ replicate (n - length xs) 0"

subsection \<open>\<^verbatim>\<open>initialize\<close>\<close>

text \<open>Lines 499-509, the writes of one round of the loop over the particles.\<close>

definition store_particle :: "nat \<Rightarrow> particle \<Rightarrow> gk_kernel \<Rightarrow> gk_kernel" where
  "store_particle i p k =
     (let (radius, gamma, ishydrogen) = p;
          g = (if ishydrogen then 0 else gamma / roffset k)
      in k\<lparr> radiusVector1 := (radiusVector1 k)[i := radius + roffset k],
             radiusVector2 := (radiusVector2 k)[i := radius],
             atom_ishydrogen := (atom_ishydrogen k)[i := (if ishydrogen then 1 else 0)],
             ishydrogenVector := (ishydrogenVector k)[i := (if ishydrogen then 1 else 0)],
             gammaVector1 := (gammaVector1 k)[i := g],
             gammaVector2 := (gammaVector2 k)[i := - g] \<rparr>)"

text \<open>The floating-point operations of lines 511-517. The member \<^verbatim>\<open>common_gamma\<close> is a
  \<^verbatim>\<open>float\<close> (header, line 334) and \<^verbatim>\<open>gamma\<close> a \<^verbatim>\<open>double\<close>: the assignment
  \<^verbatim>\<open>common_gamma = gamma\<close> narrows the value, which is \<open>to_float\<close>; the expression
  \<^verbatim>\<open>pow(common_gamma - gamma, 2)\<close> is evaluated in \<^verbatim>\<open>double\<close>, each operation rounding
  its result, which is \<open>squared_difference\<close> of the \<^verbatim>\<open>float\<close> and the \<^verbatim>\<open>double\<close>.
  Both are fixed by the arithmetic of the machine and are parameters here.\<close>

record float_arith =
  to_float :: "real \<Rightarrow> real"
  squared_difference :: "real \<Rightarrow> real \<Rightarrow> real"

text \<open>The literal \<^verbatim>\<open>1.e-6f\<close> is the \<^verbatim>\<open>float\<close> nearest to \<open>1 / 10^6\<close>, which is
  \<open>8796093 / 2^43\<close> (a little below \<open>1 / 10^6\<close>); the comparison converts it to
  \<^verbatim>\<open>double\<close> without change.\<close>

definition float_1e_6 :: real where
  "float_1e_6 = 8796093 / 2 ^ 43"

text \<open>The arithmetic that rounds nothing. The machine's arithmetic agrees with it wherever
  the operands and every intermediate result are representable: a \<^verbatim>\<open>float\<close> holds the
  numbers \<open>m / 2^e\<close> and \<open>m * 2^e\<close> whose integer \<open>m\<close> is below \<open>2^24\<close> in absolute
  value, a \<^verbatim>\<open>double\<close> those with \<open>m\<close> below \<open>2^53\<close> (within the exponent range).\<close>

definition exact_arith :: float_arith where
  "exact_arith = \<lparr> to_float = (\<lambda>x. x), squared_difference = (\<lambda>c g. (c - g)\<^sup>2) \<rparr>"

text \<open>The arithmetic of IEEE 754 in its default rounding mode, for values within the normal
  range of the formats: \<open>round_binary p x\<close> is the number with \<open>p\<close> significant bits that is
  nearest to \<open>x\<close>, the one with the even significand when two are equally near;
  \<open>bit_length n\<close> is the number of binary digits of \<open>n\<close>, \<open>pow2 e\<close> is \<open>2^e\<close> for an
  integer \<open>e\<close>, and \<open>binary_exponent x\<close> is the integer \<open>e\<close> with
  \<open>2^e \<le> \<bar>x\<bar> < 2^(e+1)\<close>. A
  \<^verbatim>\<open>float\<close> has 24 significant bits and a \<^verbatim>\<open>double\<close> 53. The subtraction rounds its
  result to a \<^verbatim>\<open>double\<close>; \<^verbatim>\<open>pow(d, 2)\<close> is taken as the correctly rounded square
  of \<open>d\<close>, which is what the mathematical libraries compute and more than the language
  promises. The theorems below hold for every arithmetic; this one serves to run the code on
  numbers that are not representable.\<close>

definition round_half_even :: "real \<Rightarrow> int" where
  "round_half_even x =
     (let f = \<lfloor>x\<rfloor>; d = x - of_int f
      in if d < 1/2 then f else if 1/2 < d then f + 1 else if even f then f else f + 1)"

function bit_length :: "int \<Rightarrow> int" where
  "bit_length n = (if n \<le> 0 then 0 else 1 + bit_length (n div 2))"
  by auto

termination bit_length
  by (relation "measure nat") auto

declare bit_length.simps [simp del]

definition binary_exponent :: "real \<Rightarrow> int" where
  "binary_exponent x =
     (if 1 \<le> \<bar>x\<bar> then bit_length \<lfloor>\<bar>x\<bar>\<rfloor> - 1
      else - bit_length (\<lceil>1 / \<bar>x\<bar>\<rceil> - 1))"

definition pow2 :: "int \<Rightarrow> real" where
  "pow2 e = (if 0 \<le> e then 2 ^ nat e else 1 / 2 ^ nat (- e))"

definition round_binary :: "nat \<Rightarrow> real \<Rightarrow> real" where
  "round_binary p x =
     (if x = 0 then 0
      else let u = pow2 (binary_exponent x - int p + 1)
           in of_int (round_half_even (x / u)) * u)"

definition ieee_arith :: float_arith where
  "ieee_arith =
     \<lparr> to_float = round_binary 24,
       squared_difference =
         (\<lambda>c g. let d = round_binary 53 (c - g) in round_binary 53 (d * d)) \<rparr>"

text \<open>Lines 495-520, the loop over the particles. The six vectors have
  \<^verbatim>\<open>paddedNumAtoms\<close> entries each. The accessor \<^verbatim>\<open>getParticleParameters\<close> is outside
  the source: an index that the force does not have is out of range here.\<close>

fun initialize_loop ::
  "float_arith \<Rightarrow> gk_force \<Rightarrow> nat list \<Rightarrow> gk_kernel \<Rightarrow> gk_kernel outcome" where
  "initialize_loop fp force [] k = Returns k"
| "initialize_loop fp force (i # rest) k =
     (if length (particles force) \<le> i \<or> length (radiusVector1 k) \<le> i
         \<or> length (radiusVector2 k) \<le> i \<or> length (atom_ishydrogen k) \<le> i
         \<or> length (ishydrogenVector k) \<le> i \<or> length (gammaVector1 k) \<le> i
         \<or> length (gammaVector2 k) \<le> i
      then Undefined Index_out_of_range
      else
        let (radius, gamma, ishydrogen) = particles force ! i;
            k = store_particle i (particles force ! i) k
        in if common_gamma k < 0 \<and> \<not> ishydrogen
           then initialize_loop fp force rest (k\<lparr> common_gamma := to_float fp gamma \<rparr>)
           else if \<not> ishydrogen \<and> squared_difference fp (common_gamma k) gamma > float_1e_6
           then Throws (OpenMMException
                  ''initialize(): GKCavitation does not support multiple gamma values.'') k
           else initialize_loop fp force rest k)"

text \<open>Lines 476-494: the five device arrays are created and the six vectors resized to
  \<^verbatim>\<open>paddedNumAtoms\<close> entries. The memory of a new device array is zero until written.\<close>

definition allocate_parameters :: "cuda_context \<Rightarrow> gk_kernel \<Rightarrow> gk_kernel" where
  "allocate_parameters cu k =
     (let p = paddedNumAtoms cu
      in k\<lparr> radiusParam1 := Some (replicate p 0), radiusParam2 := Some (replicate p 0),
             gammaParam1 := Some (replicate p 0), gammaParam2 := Some (replicate p 0),
             ishydrogenParam := Some (replicate p 0),
             radiusVector1 := resize p (radiusVector1 k),
             radiusVector2 := resize p (radiusVector2 k),
             gammaVector1 := resize p (gammaVector1 k),
             gammaVector2 := resize p (gammaVector2 k),
             ishydrogenVector := resize p (ishydrogenVector k),
             atom_ishydrogen := resize p (atom_ishydrogen k),
             common_gamma := - 1 \<rparr>)"

text \<open>Lines 521-537: the uploads, the cutoff settings, the new overlap tree, the event and
  the pinned page of two \<^verbatim>\<open>int\<close> (zero until written).\<close>

definition upload_parameters :: "gk_force \<Rightarrow> gk_kernel \<Rightarrow> gk_kernel" where
  "upload_parameters force k =
     k\<lparr> radiusParam1 := Some (radiusVector1 k),
        radiusParam2 := Some (radiusVector2 k),
        gammaParam1 := Some (gammaVector1 k),
        gammaParam2 := Some (gammaVector2 k),
        ishydrogenParam := Some (ishydrogenVector k),
        useCutoff := (nonbondedMethod force \<noteq> NoCutoff),
        usePeriodic := (nonbondedMethod force \<noteq> NoCutoff \<and>
                        nonbondedMethod force \<noteq> CutoffNonPeriodic),
        useExclusions := False,
        cutoffDistance := cutoff force,
        gtree := Some CudaOverlapTree,
        downloadPanicButtonEvent := True,
        pinnedPanicButtonMemory := Some (0, 0),
        gvol_force := Some force,
        niterations := 0,
        hasInitializedKernels := False,
        hasCreatedKernels := False \<rparr>"

text \<open>Lines 463-538. The constant \<^verbatim>\<open>GKCAV_RADIUS_INCREMENT\<close> is defined outside the source
  and is a parameter.\<close>

definition initialize ::
  "float_arith \<Rightarrow> cuda_context \<Rightarrow> real \<Rightarrow> gk_force \<Rightarrow> gk_kernel \<Rightarrow> gk_kernel outcome" where
  "initialize fp cu GKCAV_RADIUS_INCREMENT force k =
     (let k = k\<lparr> roffset := GKCAV_RADIUS_INCREMENT \<rparr> in
      if contexts cu > 1
      then Throws (OpenMMException
             ''GKCavitationForce does not support using multiple contexts'') k
      else
        let k = k\<lparr> numParticles := numAtoms cu \<rparr> in
        if numParticles k = 0 then Returns k
        else case initialize_loop fp force [0..<numParticles k] (allocate_parameters cu k) of
               Undefined f \<Rightarrow> Undefined f
             | Throws e k \<Rightarrow> Throws e k
             | Returns k \<Rightarrow> Returns (upload_parameters force k))"

subsection \<open>\<^verbatim>\<open>copyParametersToContext\<close>\<close>

text \<open>Lines 1727-1729, the writes of one round of the loop over the particles.\<close>

definition store_gamma :: "nat \<Rightarrow> particle \<Rightarrow> gk_kernel \<Rightarrow> gk_kernel" where
  "store_gamma i p k =
     (let (radius, gamma, ishydrogen) = p;
          g = (if ishydrogen then 0 else gamma / roffset k)
      in k\<lparr> gammaVector1 := (gammaVector1 k)[i := g],
             gammaVector2 := (gammaVector2 k)[i := - g] \<rparr>)"

text \<open>Lines 1715-1730, the loop over the particles.\<close>

fun copy_loop :: "gk_force \<Rightarrow> nat list \<Rightarrow> gk_kernel \<Rightarrow> gk_kernel outcome" where
  "copy_loop force [] k = Returns k"
| "copy_loop force (i # rest) k =
     (if length (particles force) \<le> i \<or> length (radiusVector2 k) \<le> i
         \<or> length (ishydrogenVector k) \<le> i \<or> length (gammaVector1 k) \<le> i
         \<or> length (gammaVector2 k) \<le> i
      then Undefined Index_out_of_range
      else
        let (radius, gamma, ishydrogen) = particles force ! i in
        if (radiusVector2 k ! i - radius)\<^sup>2 > 1 / 10 ^ 6
        then Throws (OpenMMException
          ''updateParametersInContext: GKCavitation plugin does not support changing atomic radii.'') k
        else
          let h = (if ishydrogen then 1 else 0) in
          if ishydrogenVector k ! i \<noteq> h
          then Throws (OpenMMException
            ''updateParametersInContext: GKCavitation plugin does not support changing heavy/hydrogen atoms.'') k
          else copy_loop force rest (store_gamma i (particles force ! i) k))"

text \<open>Lines 1708-1733. The uploads need the two device arrays to exist.\<close>

definition copyParametersToContext :: "gk_force \<Rightarrow> gk_kernel \<Rightarrow> gk_kernel outcome" where
  "copyParametersToContext force k =
     (if length (particles force) \<noteq> numParticles k
      then Throws (OpenMMException
        ''copyParametersToContext: GKCavitation plugin does not support changing the number of atoms.'') k
      else if numParticles k = 0 then Returns k
      else case copy_loop force [0..<numParticles k] k of
             Undefined f \<Rightarrow> Undefined f
           | Throws e k \<Rightarrow> Throws e k
           | Returns k \<Rightarrow>
               if gammaParam1 k = None \<or> gammaParam2 k = None then Undefined Null_pointer
               else Returns (k\<lparr> gammaParam1 := Some (gammaVector1 k),
                                 gammaParam2 := Some (gammaVector2 k) \<rparr>))"

subsection \<open>\<^verbatim>\<open>execute\<close>\<close>

text \<open>\<^verbatim>\<open>executeInitKernels\<close>, lines 551-1158, as far as it changes the host state: it runs
  the CPU routine for the overlap counts, sizes the tree with
  \<^verbatim>\<open>pad_modulo = ov_work_group_size\<close>, creates the tree buffers, the panic button (two
  zeros) and the per-atom arrays. The compilation of the kernels leaves no host state.\<close>

definition executeInitKernels ::
  "device_results \<Rightarrow> gk_kernel \<times> cuda_context \<Rightarrow> fault + (gk_kernel \<times> cuda_context)" where
  "executeInitKernels dev = (\<lambda>(k, cu).
     let k = k\<lparr> maxTiles := (if nbUseCutoff cu then interactingTilesSize cu else 0) \<rparr> in
     case gvol_force k of
       None \<Rightarrow> Inl Null_pointer
     | Some force \<Rightarrow>
         if length (particles force) < numAtoms cu then Inl Index_out_of_range
         else
           let noverlaps = gaussvol_noverlaps dev;
               k = k\<lparr> ov_work_group_size := forceThreadBlockSize cu,
                      num_compute_units := numForceThreadBlocks cu \<rparr>;
               pad_modulo = ov_work_group_size k
           in case gtree k of
                None \<Rightarrow> Inl Null_pointer
              | Some t \<Rightarrow>
                  (case init_tree_size t (numAtoms cu) (paddedNumAtoms cu)
                          (num_compute_units k) pad_modulo noverlaps of
                     Inl f \<Rightarrow> Inl f
                   | Inr t \<Rightarrow>
                       Inr (k\<lparr> gtree := Some (resize_tree_buffers t (ov_work_group_size k)),
                               PanicButton := Some (0, 0),
                               atom_arrays := Some (paddedNumAtoms cu) \<rparr>, cu)))"

definition launch :: "gpu_kernel list \<Rightarrow> cuda_context \<Rightarrow> cuda_context" where
  "launch ks cu = cu\<lparr> launched := launched cu @ ks \<rparr>"

text \<open>Lines 1507-1515 and 1697-1703: \<^verbatim>\<open>energy += vol_energies[atom_pointer[i]]\<close> over the
  particles.\<close>

fun energy_loop :: "int list \<Rightarrow> real list \<Rightarrow> nat list \<Rightarrow> real \<Rightarrow> fault + real" where
  "energy_loop atom_pointer vol_energies [] energy = Inr energy"
| "energy_loop atom_pointer vol_energies (i # rest) energy =
     (if length atom_pointer \<le> i then Inl Index_out_of_range
      else let slot = atom_pointer ! i in
        if slot < 0 \<or> int (length vol_energies) \<le> slot then Inl Index_out_of_range
        else energy_loop atom_pointer vol_energies rest (energy + vol_energies ! nat slot))"

text \<open>The kernels of the tree construction with enlarged radii (lines 1177-1403), of the
  first reduction after its \<^verbatim>\<open>resetSelfVolumesKernel\<close> (lines 1444-1505), and of the
  second pass (lines 1524-1695), in launch order.\<close>

definition construction_kernels :: "gpu_kernel list" where
  "construction_kernels =
     [resetTreeKernel, resetBufferKernel, InitOverlapTreeKernel_1body_1,
      InitOverlapTreeCountKernel, reduceovCountBufferKernel, InitOverlapTreeKernel,
      resetComputeOverlapTreeKernel, ComputeOverlapTree_1passKernel]"

definition reduction_kernels :: "gpu_kernel list" where
  "reduction_kernels =
     [computeSelfVolumesKernel, reduceSelfVolumesKernel_buffer, updateSelfVolumesForcesKernel]"

definition second_pass_kernels :: "gpu_kernel list" where
  "second_pass_kernels =
     [InitOverlapTreeKernel_1body_2, ResetRescanOverlapTreeKernel, InitRescanOverlapTreeKernel,
      RescanOverlapTreeKernel, resetSelfVolumesKernel, resetBufferKernel,
      computeSelfVolumesKernel, reduceSelfVolumesKernel_buffer, updateSelfVolumesForcesKernel]"

text \<open>\<^verbatim>\<open>executeGVolSA\<close>, lines 1160-1706. The construction kernels leave
  \<^verbatim>\<open>panic_values\<close> in the device array \<^verbatim>\<open>PanicButton\<close>, which is downloaded to the pinned
  page; \<^verbatim>\<open>resetSelfVolumesKernel\<close> is launched; then the page is read. The sums of the two
  energy loops are locals that the function does not use: every \<^verbatim>\<open>return\<close> is
  \<^verbatim>\<open>return 0.0\<close>.\<close>

definition executeGVolSA ::
  "device_results \<Rightarrow> gk_kernel \<times> cuda_context \<Rightarrow> fault + (real \<times> gk_kernel \<times> cuda_context)" where
  "executeGVolSA dev = (\<lambda>(k, cu).
     let k = k\<lparr> niterations := niterations k + 1 \<rparr>;
         k = (if useCutoff k \<and> maxTiles k < interactingTilesSize cu
              then k\<lparr> maxTiles := interactingTilesSize cu \<rparr> else k)
     in case gtree k of
          None \<Rightarrow> Inl Null_pointer
        | Some t \<Rightarrow>
            if ov_arrays t = None \<or> PanicButton k = None \<or> pinnedPanicButtonMemory k = None
               \<or> atom_arrays k = None
            then Inl Null_pointer
            else
              let cu = launch construction_kernels cu;
                  k = k\<lparr> PanicButton := Some (panic_values dev) \<rparr>;
                  k = k\<lparr> pinnedPanicButtonMemory := PanicButton k \<rparr>;
                  cu = launch [resetSelfVolumesKernel] cu
              in if fst (panic_values dev) > 0 then
                   let k = k\<lparr> hasInitializedKernels := False \<rparr>;
                       cu = cu\<lparr> forcesValid := False \<rparr>;
                       k = (if snd (panic_values dev) > 0
                            then k\<lparr> gtree := Some (t\<lparr> hasExceededTempBuffer := True \<rparr>) \<rparr>
                            else k)
                   in Inr (0, k, cu)
                 else
                   let cu = launch reduction_kernels cu in
                   case energy_loop (atom_pointer_1 dev) (vol_energies_1 dev)
                          [0..<numParticles k] 0 of
                     Inl f \<Rightarrow> Inl f
                   | Inr energy \<Rightarrow>
                       let cu = launch second_pass_kernels cu in
                       (case energy_loop (atom_pointer_2 dev) (vol_energies_2 dev)
                               [0..<numParticles k] 0 of
                          Inl f \<Rightarrow> Inl f
                        | Inr energy \<Rightarrow> Inr (0, k, cu)))"

text \<open>\<^verbatim>\<open>execute\<close>, lines 540-549: \<^verbatim>\<open>energy = executeGVolSA(...); return 0.0;\<close>.\<close>

definition execute ::
  "device_results \<Rightarrow> gk_kernel \<times> cuda_context \<Rightarrow> fault + (real \<times> gk_kernel \<times> cuda_context)" where
  "execute dev = (\<lambda>(k, cu).
     case (if \<not> hasCreatedKernels k \<or> \<not> hasInitializedKernels k
           then (case executeInitKernels dev (k, cu) of
                   Inl f \<Rightarrow> Inl f
                 | Inr (k, cu) \<Rightarrow>
                     Inr (k\<lparr> hasInitializedKernels := True, hasCreatedKernels := True \<rparr>, cu))
           else Inr (k, cu)) of
       Inl f \<Rightarrow> Inl f
     | Inr (k, cu) \<Rightarrow>
         (case executeGVolSA dev (k, cu) of
            Inl f \<Rightarrow> Inl f
          | Inr (energy, k, cu) \<Rightarrow> Inr (0, k, cu)))"

section \<open>A small system\<close>

text \<open>Three particles, the second a hydrogen, on one context with two thread blocks of four
  threads; \<^verbatim>\<open>GKCAV_RADIUS_INCREMENT\<close> is taken as \<open>1/2000\<close>. The two non-hydrogen
  particles have the same coefficient \<open>1/10\<close>; the \<^verbatim>\<open>float\<close> nearest to it differs from
  it by less than \<open>2 / 10^9\<close>, so the test of the common gamma passes on the machine as it
  does without rounding. \<open>example_device\<close> is a step
  without overflow, \<open>example_panic\<close> one on which both entries of the panic button are set.\<close>

definition example_force :: gk_force where
  "example_force =
     \<lparr> particles = [(3/20, 1/10, False), (1/10, 0, True), (3/20, 1/10, False)],
       nonbondedMethod = NoCutoff, cutoff = 1 \<rparr>"

definition example_context :: cuda_context where
  "example_context =
     \<lparr> contexts = 1, numAtoms = 3, paddedNumAtoms = 32, nbUseCutoff = False,
       interactingTilesSize = 0, forceThreadBlockSize = 4, numForceThreadBlocks = 2,
       forcesValid = True, launched = [] \<rparr>"

definition example_kernel :: gk_kernel where
  "example_kernel =
     (case initialize exact_arith example_context (1/2000) example_force
             CudaCalcGKCavitationForceKernel of
        Returns k \<Rightarrow> k
      | Throws e k \<Rightarrow> k
      | Undefined f \<Rightarrow> CudaCalcGKCavitationForceKernel)"

definition example_device :: device_results where
  "example_device =
     \<lparr> gaussvol_noverlaps = [2, 0, 2] @ replicate 29 0,
       panic_values = (0, 0),
       atom_pointer_1 = [0, 1, 2] @ replicate 29 0,
       vol_energies_1 = [5/2, 0, 1/2] @ replicate 17 0,
       atom_pointer_2 = [0, 1, 2] @ replicate 29 0,
       vol_energies_2 = [- 1, 0, - 1/2] @ replicate 17 0 \<rparr>"

definition example_panic :: device_results where
  "example_panic = example_device\<lparr> panic_values := (1, 1) \<rparr>"

text \<open>The state in which the step \<open>example_panic\<close> leaves the kernel and the context.\<close>

definition example_after_panic :: "gk_kernel \<times> cuda_context" where
  "example_after_panic =
     (case execute example_panic (example_kernel, example_context) of
        Inr (e, k, cu) \<Rightarrow> (k, cu)
      | Inl f \<Rightarrow> (example_kernel, example_context))"

text \<open>Three non-hydrogen particles whose coefficients are \<open>1\<close>, \<open>1 + 3/4096\<close> and
  \<open>1 - 3/4096\<close> (about \<open>1.00073\<close> and \<open>0.99927\<close>). The three coefficients, the differences
  \<open>3/4096\<close> from the first and their square \<open>9 / 2^24\<close> are representable in
  \<^verbatim>\<open>float\<close> and \<^verbatim>\<open>double\<close>, so that no operation of the test rounds.\<close>

definition example_three_gammas :: gk_force where
  "example_three_gammas =
     \<lparr> particles = [(3/20, 1, False), (3/20, 4099/4096, False), (3/20, 4093/4096, False)],
       nonbondedMethod = NoCutoff, cutoff = 1 \<rparr>"

text \<open>Two non-hydrogen particles on a context of two atoms: both with the
  \<^verbatim>\<open>double\<close> nearest to \<open>40000.0019\<close> as coefficient; and with the coefficients \<open>1\<close>
  and the \<^verbatim>\<open>double\<close> nearest to \<open>1.0009999999995\<close>, whose difference from \<open>1\<close> has a
  square between \<^verbatim>\<open>1.e-6f\<close> and \<open>1 / 10^6\<close>.\<close>

definition example_two_atoms :: cuda_context where
  "example_two_atoms = example_context\<lparr> numAtoms := 2 \<rparr>"

definition example_equal_gammas :: gk_force where
  "example_equal_gammas =
     \<lparr> particles = [(3/20, round_binary 53 (400000019 / 10000), False),
                     (3/20, round_binary 53 (400000019 / 10000), False)],
       nonbondedMethod = NoCutoff, cutoff = 1 \<rparr>"

definition example_near_gammas :: gk_force where
  "example_near_gammas =
     \<lparr> particles = [(3/20, 1, False),
                     (3/20, round_binary 53 (10009999999995 / 10000000000000), False)],
       nonbondedMethod = NoCutoff, cutoff = 1 \<rparr>"





text \<open>The force of the small system with every coefficient doubled; a context without atoms
  and a force without particles.\<close>

definition example_new_gammas :: gk_force where
  "example_new_gammas =
     example_force\<lparr> particles := [(3/20, 1/5, False), (1/10, 0, True), (3/20, 1/5, False)] \<rparr>"

definition example_no_atoms :: cuda_context where
  "example_no_atoms = example_context\<lparr> numAtoms := 0, paddedNumAtoms := 0 \<rparr>"

definition example_no_particles :: gk_force where
  "example_no_particles = example_force\<lparr> particles := [] \<rparr>"

text \<open>The six parameter vectors of the kernel have at least \<open>n\<close> entries each.\<close>

definition vectors_hold :: "nat \<Rightarrow> gk_kernel \<Rightarrow> bool" where
  "vectors_hold n k =
     (n \<le> length (radiusVector1 k) \<and> n \<le> length (radiusVector2 k)
      \<and> n \<le> length (atom_ishydrogen k) \<and> n \<le> length (ishydrogenVector k)
      \<and> n \<le> length (gammaVector1 k) \<and> n \<le> length (gammaVector2 k))"

text \<open>Projections of the results.\<close>

definition result_energy :: "fault + (real \<times> gk_kernel \<times> cuda_context) \<Rightarrow> real option" where
  "result_energy r = (case r of Inl f \<Rightarrow> None | Inr (e, k, cu) \<Rightarrow> Some e)"

definition result_tree :: "fault + (real \<times> gk_kernel \<times> cuda_context) \<Rightarrow> overlap_tree option" where
  "result_tree r = (case r of Inl f \<Rightarrow> None | Inr (e, k, cu) \<Rightarrow> gtree k)"

definition result_launched :: "fault + (real \<times> gk_kernel \<times> cuda_context) \<Rightarrow> gpu_kernel list option" where
  "result_launched r = (case r of Inl f \<Rightarrow> None | Inr (e, k, cu) \<Rightarrow> Some (launched cu))"

definition returns :: "'a outcome \<Rightarrow> bool" where
  "returns r = (case r of Returns k \<Rightarrow> True | Throws e k \<Rightarrow> False | Undefined f \<Rightarrow> False)"

definition throws :: "'a outcome \<Rightarrow> bool" where
  "throws r = (case r of Returns k \<Rightarrow> False | Throws e k \<Rightarrow> True | Undefined f \<Rightarrow> False)"

section \<open>Properties of \<^verbatim>\<open>init_tree_size\<close>\<close>

lemma length_overlap_budget [simp]: "length (overlap_budget saved cur n) = n"
  by (simp add: overlap_budget_def)

lemma nth_overlap_budget:
  "i < n \<Longrightarrow> overlap_budget saved cur n ! i = max (saved ! i) (cur ! i + 1)"
  by (simp add: overlap_budget_def max_def)

lemma init_tree_size_saved:
  assumes "init_tree_size t n padded ncu m cur = Inr t'"
  shows "has_saved_noverlaps t' \<and>
         saved_noverlaps t' =
           overlap_budget (if has_saved_noverlaps t then saved_noverlaps t else replicate n 0) cur n
           @ drop n (if has_saved_noverlaps t then saved_noverlaps t else replicate n 0)"
  using assms
  by (auto simp: init_tree_size_def Let_def split: if_splits sum.splits prod.splits)

lemma init_tree_size_ok_sum:
  "(case init_tree_size t n padded ncu m cur of Inl f \<Rightarrow> False | Inr t' \<Rightarrow> True) \<Longrightarrow>
   \<exists>t'. init_tree_size t n padded ncu m cur = Inr t'"
  by (cases "init_tree_size t n padded ncu m cur") auto

lemma length_prefix_sum_loop [simp]: "length (prefix_sum_loop a xs) = Suc (length xs)"
  by (induction xs arbitrary: a) auto

lemma length_tree_pointer_loop [simp]: "length (tree_pointer_loop a xs) = length xs"
  by (induction xs arbitrary: a) auto

lemma nth_tree_pointer_loop:
  "s < length xs \<Longrightarrow> tree_pointer_loop a xs ! s = a + sum_list (take s xs)"
proof (induction xs arbitrary: a s)
  case Nil
  then show ?case by simp
next
  case (Cons x xs)
  show ?case
  proof (cases s)
    case 0
    then show ?thesis by simp
  next
    case (Suc j)
    with Cons.prems have "j < length xs" by simp
    from Cons.IH [OF this, of "a + x"] Suc show ?thesis by simp
  qed
qed

lemma length_atom_slots [simp]: "length (atom_slots off tot tp cnt atp) = length atp"
  unfolding atom_slots_def by (induction cnt) auto

lemma nth_atom_slots:
  "j < length atp \<Longrightarrow>
   atom_slots off tot tp cnt atp ! j =
     (if off \<le> j \<and> j < off + cnt \<and> j < tot then tp + int (j - off) else atp ! j)"
proof (induction cnt)
  case 0
  then show ?case by (simp add: atom_slots_def)
next
  case (Suc cnt)
  have step: "atom_slots off tot tp (Suc cnt) atp =
      (if off + cnt < tot then (atom_slots off tot tp cnt atp)[off + cnt := tp + int cnt]
       else atom_slots off tot tp cnt atp)"
    by (simp add: atom_slots_def)
  have len: "j < length (atom_slots off tot tp cnt atp)" using Suc.prems by simp
  note ih = Suc.IH [OF Suc.prems]
  show ?case
  proof (cases "j = off + cnt")
    case True
    with len ih show ?thesis
      by (simp add: step)
  next
    case False
    with len ih show ?thesis
      by (auto simp: step nth_list_update)
  qed
qed

text \<open>The state of the layout loop after \<open>k\<close> sections.\<close>

lemma layout_fold:
  assumes "k \<le> S" and "length natoms = S" and "length ssz = S"
  shows "\<exists>fa atp.
     fold (layout_step natoms tp ssz tot) [0..<k] (0, 0, replicate S 0, replicate padded 0)
       = (sum_list (take k natoms), sum_list (take k ssz), fa, atp)
     \<and> length fa = S \<and> length atp = padded
     \<and> (\<forall>s<k. fa ! s = sum_list (take s natoms))
     \<and> (\<forall>s<k. \<forall>j. sum_list (take s natoms) \<le> j \<longrightarrow> j < sum_list (take (Suc s) natoms)
            \<longrightarrow> j < tot \<longrightarrow> j < padded
            \<longrightarrow> atp ! j = tp ! s + int (j - sum_list (take s natoms)))"
  using assms(1)
proof (induction k)
  case 0
  show ?case by simp
next
  case (Suc k)
  then have k: "k < S" by simp
  with Suc.IH obtain fa atp where
    st: "fold (layout_step natoms tp ssz tot) [0..<k] (0, 0, replicate S 0, replicate padded 0)
       = (sum_list (take k natoms), sum_list (take k ssz), fa, atp)"
    and len: "length fa = S" "length atp = padded"
    and fa: "\<forall>s<k. fa ! s = sum_list (take s natoms)"
    and atp: "\<forall>s<k. \<forall>j. sum_list (take s natoms) \<le> j \<longrightarrow> j < sum_list (take (Suc s) natoms)
            \<longrightarrow> j < tot \<longrightarrow> j < padded
            \<longrightarrow> atp ! j = tp ! s + int (j - sum_list (take s natoms))"
    by auto
  let ?off = "sum_list (take k natoms)"
  let ?fa = "fa[k := ?off]"
  let ?atp = "atom_slots ?off tot (tp ! k) (natoms ! k) atp"
  have tk: "sum_list (take (Suc k) natoms) = ?off + natoms ! k"
    using k assms(2) by (simp add: take_Suc_conv_app_nth)
  have tks: "sum_list (take (Suc k) ssz) = sum_list (take k ssz) + ssz ! k"
    using k assms(3) by (simp add: take_Suc_conv_app_nth)
  have mono: "\<And>s. s < k \<Longrightarrow> sum_list (take (Suc s) natoms) \<le> ?off"
  proof -
    fix s assume "s < k"
    then have "take k natoms = take (Suc s) natoms @ drop (Suc s) (take k natoms)"
      by (metis Suc_leI append_take_drop_id min.absorb1 take_take)
    then have "sum_list (take k natoms) =
        sum_list (take (Suc s) natoms) + sum_list (drop (Suc s) (take k natoms))"
      by (metis sum_list_append)
    then show "sum_list (take (Suc s) natoms) \<le> ?off" by simp
  qed
  have "fold (layout_step natoms tp ssz tot) [0..<Suc k] (0, 0, replicate S 0, replicate padded 0)
       = (sum_list (take (Suc k) natoms), sum_list (take (Suc k) ssz), ?fa, ?atp)"
    by (simp add: st layout_step_def tk tks)
  moreover have "length ?fa = S" "length ?atp = padded" using len by simp_all
  moreover have "\<forall>s<Suc k. ?fa ! s = sum_list (take s natoms)"
    using fa len k by (auto simp: nth_list_update less_Suc_eq)
  moreover have "\<forall>s<Suc k. \<forall>j. sum_list (take s natoms) \<le> j \<longrightarrow> j < sum_list (take (Suc s) natoms)
            \<longrightarrow> j < tot \<longrightarrow> j < padded
            \<longrightarrow> ?atp ! j = tp ! s + int (j - sum_list (take s natoms))"
  proof (intro allI impI)
    fix s j
    assume s: "s < Suc k" and j: "sum_list (take s natoms) \<le> j"
      "j < sum_list (take (Suc s) natoms)" "j < tot" "j < padded"
    show "?atp ! j = tp ! s + int (j - sum_list (take s natoms))"
    proof (cases "s = k")
      case True
      with j len tk show ?thesis by (simp add: nth_atom_slots)
    next
      case False
      with s have sk: "s < k" by simp
      from mono [OF sk] j have "j < ?off" by simp
      with j len have "?atp ! j = atp ! j" by (simp add: nth_atom_slots)
      with atp sk j show ?thesis by simp
    qed
  qed
  ultimately show ?case by blast
qed


lemma sorted_filter_less:
  "sorted xs \<Longrightarrow> filter (\<lambda>x. x < (s::nat)) xs = takeWhile (\<lambda>x. x < s) xs"
proof (induction xs)
  case Nil
  show ?case by simp
next
  case (Cons a xs)
  then have ih: "filter (\<lambda>x. x < s) xs = takeWhile (\<lambda>x. x < s) xs"
    and le: "\<forall>x\<in>set xs. a \<le> x" by simp_all
  show ?case
  proof (cases "a < s")
    case True
    with ih show ?thesis by simp
  next
    case False
    with le have "\<forall>x\<in>set xs. \<not> x < s" by auto
    then have "filter (\<lambda>x. x < s) xs = []" by (simp add: filter_empty_conv)
    with False show ?thesis by simp
  qed
qed

lemma sorted_count_below:
  assumes "sorted xs" and "i < length xs"
  shows "length (filter (\<lambda>x. x < xs ! i) xs) \<le> i"
    and "i < length (filter (\<lambda>x. x < Suc (xs ! i)) xs)"
proof -
  let ?P = "\<lambda>x. x < xs ! i"
  have "\<not> i < length (takeWhile ?P xs)"
  proof
    assume a: "i < length (takeWhile ?P xs)"
    then have "takeWhile ?P xs ! i \<in> set (takeWhile ?P xs)" by simp
    then have "?P (takeWhile ?P xs ! i)" by (rule set_takeWhileD [THEN conjunct2])
    with a show False by (simp add: takeWhile_nth)
  qed
  then show "length (filter ?P xs) \<le> i"
    using assms(1) by (simp add: sorted_filter_less)
  let ?Q = "\<lambda>x. x < Suc (xs ! i)"
  have "Suc i \<le> length (takeWhile ?Q xs)"
  proof (rule length_takeWhile_less_P_nth)
    fix j assume "j < Suc i"
    then have "xs ! j \<le> xs ! i"
      using assms by (simp add: sorted_nth_mono)
    then show "?Q (xs ! j)" by simp
  next
    show "Suc i \<le> length xs" using assms(2) by simp
  qed
  then show "i < length (filter ?Q xs)"
    using assms(1) by (simp add: sorted_filter_less)
qed

lemma count_less_Suc:
  "length (filter (\<lambda>x. x < Suc k) xs) =
   length (filter (\<lambda>x. x < k) xs) + length (filter (\<lambda>x. x = k) (xs::nat list))"
  by (induction xs) auto

lemma sum_counts_below:
  "sum_list (map (\<lambda>s. length (filter (\<lambda>x. x = s) xs)) [0..<k]) =
   length (filter (\<lambda>x. x < k) (xs::nat list))"
  by (induction k) (simp_all add: count_less_Suc)


lemma nth_prefix_sum_loop:
  "i \<le> length xs \<Longrightarrow> prefix_sum_loop a xs ! i = a + sum_list (take i xs)"
proof (induction xs arbitrary: a i)
  case Nil
  then show ?case by simp
next
  case (Cons x xs)
  show ?case
  proof (cases i)
    case 0
    then show ?thesis by simp
  next
    case (Suc j)
    with Cons.prems have "j \<le> length xs" by simp
    from Cons.IH [OF this, of "x + a"] Suc show ?thesis by simp
  qed
qed

lemma nth_noverlaps_sum:
  "i \<le> length xs \<Longrightarrow> noverlaps_sum xs ! i = sum_list (take i xs)"
  by (simp add: noverlaps_sum_def nth_prefix_sum_loop)

lemma sdiv_nonneg: "0 \<le> a \<Longrightarrow> 0 < b \<Longrightarrow> a sdiv b = a div (b::int)"
  by (simp add: signed_divide_int_def sgn_if)

lemma fold_max_ge: "m \<le> fold (\<lambda>x m. if x > m then x else m) xs (m::int)"
proof (induction xs arbitrary: m)
  case Nil
  show ?case by simp
next
  case (Cons x xs)
  have "m \<le> (if x > m then x else m)" by simp
  also have "\<dots> \<le> fold (\<lambda>x m. if x > m then x else m) xs (if x > m then x else m)"
    by (rule Cons.IH)
  finally show ?case by simp
qed

lemma max_n_overlaps_nonneg: "0 \<le> max_n_overlaps xs"
  unfolding max_n_overlaps_def by (rule fold_max_ge)

lemma per_section_load_nonneg: "0 \<le> per_section_load S nov"
  using max_n_overlaps_nonneg [of nov]
  by (simp add: per_section_load_def n_overlaps_per_section_def Let_def)

lemma assign_sections_Inr:
  assumes "assign_sections psum L idxs (cu0, nat0) = Inr (cu, natoms)"
  shows "length cu = length cu0 \<and> length natoms = length nat0 \<and>
    (\<forall>i\<in>set idxs. 0 \<le> section_index psum L i \<and> section_index psum L i < int (length nat0)) \<and>
    (idxs \<noteq> [] \<longrightarrow> L \<noteq> 0)"
  using assms
proof (induction idxs arbitrary: cu0 nat0)
  case Nil
  then show ?case by simp
next
  case (Cons i rest)
  let ?s = "section_index psum L i"
  from Cons.prems have L: "L \<noteq> 0" and s: "0 \<le> ?s" "?s < int (length nat0)"
    and rec: "assign_sections psum L rest (cu0[i := nat ?s], nat0[nat ?s := nat0 ! nat ?s + 1])
              = Inr (cu, natoms)"
    by (auto simp: Let_def split: if_splits)
  from Cons.IH [OF rec] L s show ?case by simp
qed

lemma assign_sections_cu:
  assumes "assign_sections psum L idxs (cu0, nat0) = Inr (cu, natoms)"
    and "distinct idxs" and "j < length cu0"
  shows "cu ! j = (if j \<in> set idxs then nat (section_index psum L j) else cu0 ! j)"
  using assms
proof (induction idxs arbitrary: cu0 nat0)
  case Nil
  then show ?case by simp
next
  case (Cons i rest)
  let ?s = "section_index psum L i"
  from Cons.prems have
    rec: "assign_sections psum L rest (cu0[i := nat ?s], nat0[nat ?s := nat0 ! nat ?s + 1])
              = Inr (cu, natoms)"
    by (auto simp: Let_def split: if_splits)
  from Cons.prems have d: "distinct rest" "i \<notin> set rest" by simp_all
  have len: "j < length (cu0[i := nat ?s])" using Cons.prems by simp
  from Cons.IH [OF rec d(1) len] d(2) Cons.prems(3) show ?case
    by (auto simp: nth_list_update)
qed

lemma assign_sections_natoms:
  assumes "assign_sections psum L idxs (cu0, nat0) = Inr (cu, natoms)"
    and "s < length nat0"
  shows "natoms ! s = nat0 ! s + length (filter (\<lambda>i. nat (section_index psum L i) = s) idxs)"
  using assms
proof (induction idxs arbitrary: cu0 nat0)
  case Nil
  then show ?case by simp
next
  case (Cons i rest)
  let ?s = "section_index psum L i"
  from Cons.prems have s: "0 \<le> ?s" "?s < int (length nat0)" and
    rec: "assign_sections psum L rest (cu0[i := nat ?s], nat0[nat ?s := nat0 ! nat ?s + 1])
              = Inr (cu, natoms)"
    by (auto simp: Let_def split: if_splits)
  have len: "s < length (nat0[nat ?s := nat0 ! nat ?s + 1])" using Cons.prems by simp
  from Cons.IH [OF rec len] Cons.prems(2) show ?case
    by (auto simp: nth_list_update)
qed

text \<open>What a run of the assignment loop over all atoms returns.\<close>

lemma assign_sections_all:
  assumes "assign_sections psum L [0..<n] (replicate n 0, replicate S 0) = Inr (cu, natoms)"
  shows "cu = map (\<lambda>i. nat (section_index psum L i)) [0..<n]"
    and "natoms = map (\<lambda>s. length (filter (\<lambda>x. x = s) cu)) [0..<S]"
    and "\<forall>i<n. 0 \<le> section_index psum L i \<and> section_index psum L i < int S"
    and "0 < n \<Longrightarrow> L \<noteq> 0"
proof -
  from assign_sections_Inr [OF assms]
  have len: "length cu = n" "length natoms = S"
    and rng: "\<forall>i\<in>set [0..<n]. 0 \<le> section_index psum L i \<and> section_index psum L i < int S"
    and L: "[0..<n] \<noteq> [] \<longrightarrow> L \<noteq> 0"
    by simp_all
  from rng show "\<forall>i<n. 0 \<le> section_index psum L i \<and> section_index psum L i < int S" by simp
  from L show "0 < n \<Longrightarrow> L \<noteq> 0" by simp
  show cu: "cu = map (\<lambda>i. nat (section_index psum L i)) [0..<n]"
  proof (rule nth_equalityI)
    show "length cu = length (map (\<lambda>i. nat (section_index psum L i)) [0..<n])"
      using len by simp
  next
    fix j assume "j < length cu"
    with len have j: "j < n" by simp
    then have "j < length (replicate n (0::nat))" by simp
    from assign_sections_cu [OF assms _ this] j
    show "cu ! j = map (\<lambda>i. nat (section_index psum L i)) [0..<n] ! j" by simp
  qed
  show "natoms = map (\<lambda>s. length (filter (\<lambda>x. x = s) cu)) [0..<S]"
  proof (rule nth_equalityI)
    show "length natoms = length (map (\<lambda>s. length (filter (\<lambda>x. x = s) cu)) [0..<S])"
      using len by simp
  next
    fix s assume "s < length natoms"
    with len have s: "s < S" by simp
    then have "s < length (replicate S (0::nat))" by simp
    from assign_sections_natoms [OF assms this] s
    have "natoms ! s = length (filter (\<lambda>i. nat (section_index psum L i) = s) [0..<n])" by simp
    also have "\<dots> = length (filter (\<lambda>x. x = s) cu)"
      by (simp add: cu filter_map comp_def)
    finally show "natoms ! s = map (\<lambda>s. length (filter (\<lambda>x. x = s) cu)) [0..<S] ! s"
      using s by simp
  qed
qed

lemma sum_list_take_mono:
  assumes "\<forall>x\<in>set xs. (0::int) \<le> x" and "i \<le> j"
  shows "sum_list (take i xs) \<le> sum_list (take j xs)"
proof -
  have "take j xs = take i xs @ drop i (take j xs)"
    using assms(2) by (metis append_take_drop_id min.absorb1 take_take)
  then have "sum_list (take j xs) = sum_list (take i xs) + sum_list (drop i (take j xs))"
    by (metis sum_list_append)
  moreover have "0 \<le> sum_list (drop i (take j xs))"
    using assms(1) by (auto intro!: sum_list_nonneg dest!: in_set_dropD in_set_takeD)
  ultimately show ?thesis by simp
qed


lemma init_tree_size_Inr:
  assumes "init_tree_size t n padded ncu m cur = Inr t'"
  shows "\<exists>cu natoms ao.
    n \<le> length cur \<and>
    assign_sections (noverlaps_sum (init_noverlaps t n cur))
      (per_section_load ncu (init_noverlaps t n cur)) [0..<n]
      (replicate n 0, replicate ncu 0) = Inr (cu, natoms) \<and>
    (m \<noteq> 0 \<or> ncu = 0) \<and> n \<le> padded \<and>
    padded_tree_size t' =
      map (padded_size (tree_size_boost t) m) (section_sizes cu (init_noverlaps t n cur) ncu) \<and>
    tree_pointer t' = tree_pointer_loop 0 (padded_tree_size t') \<and>
    layout_loop natoms (tree_pointer t') (padded_tree_size t') n ncu padded =
      (ao, total_tree_size t', first_atom t', atom_tree_pointer t') \<and>
    natoms_in_tree t' = natoms \<and> num_sections t' = ncu \<and> num_atoms t' = n \<and>
    padded_num_atoms t' = padded \<and> total_atoms_in_tree t' = n \<and>
    tree_size t' = replicate ncu 0 \<and>
    tree_size_boost t' = tree_size_boost t \<and> temp_buffer_size t' = temp_buffer_size t \<and>
    hasExceededTempBuffer t' = hasExceededTempBuffer t \<and> ov_arrays t' = ov_arrays t"
  using assms
  by (auto simp: init_tree_size_def Let_def init_noverlaps_def per_section_load_def
           split: if_splits sum.splits prod.splits)


lemma section_fold:
  "length (fold (\<lambda>i ss. ss[cu ! i := ss ! (cu ! i) + nov ! i]) idxs ss0) = length ss0
   \<and> (\<forall>s<length ss0.
        fold (\<lambda>i ss. ss[cu ! i := ss ! (cu ! i) + nov ! i]) idxs ss0 ! s =
          ss0 ! s + sum_list (map (\<lambda>i. nov ! i) (filter (\<lambda>i. cu ! i = s) idxs)))"
  for nov :: "int list" and cu :: "nat list"
proof (induction idxs arbitrary: ss0)
  case Nil
  show ?case by simp
next
  case (Cons i idxs)
  let ?ss1 = "ss0[cu ! i := ss0 ! (cu ! i) + nov ! i]"
  from Cons.IH [of ?ss1] show ?case
    by (auto simp: nth_list_update)
qed

lemma length_section_sizes [simp]: "length (section_sizes cu nov S) = S"
  by (simp add: section_sizes_def section_fold)

lemma nth_section_sizes:
  "s < S \<Longrightarrow> section_sizes cu nov S ! s =
     sum_list (map (\<lambda>i. nov ! i) (filter (\<lambda>i. cu ! i = s) [0..<length nov]))"
  by (simp add: section_sizes_def section_fold)

lemma init_noverlaps_nonneg:
  assumes "\<forall>x\<in>set (saved_noverlaps t). 0 \<le> x" and "n \<le> length (saved_noverlaps t) \<or> \<not> has_saved_noverlaps t"
  shows "\<forall>x\<in>set (init_noverlaps t n cur). 0 \<le> x"
proof
  fix x assume "x \<in> set (init_noverlaps t n cur)"
  then obtain i where i: "i < n" and x: "x = init_noverlaps t n cur ! i"
    by (auto simp: in_set_conv_nth init_noverlaps_def)
  let ?saved = "if has_saved_noverlaps t then saved_noverlaps t else replicate n 0"
  have "0 \<le> ?saved ! i" using assms i by auto
  moreover have "x = max (?saved ! i) (cur ! i + 1)"
    using i x by (simp add: init_noverlaps_def nth_overlap_budget)
  ultimately show "0 \<le> x" by simp
qed

lemma round_up_multiple:
  assumes "0 < (m::int)"
  shows "m dvd m * ((x + m - 1) div m)" and "x \<le> m * ((x + m - 1) div m)"
    and "m * ((x + m - 1) div m) < x + m"
proof -
  show "m dvd m * ((x + m - 1) div m)" by simp
  have eq: "m * ((x + m - 1) div m) = (x + m - 1) - (x + m - 1) mod m"
    by (simp add: minus_mod_eq_mult_div)
  have "0 \<le> (x + m - 1) mod m" "(x + m - 1) mod m < m"
    using assms by simp_all
  then show "x \<le> m * ((x + m - 1) div m)" "m * ((x + m - 1) div m) < x + m"
    unfolding eq by linarith+
qed

lemma double_to_int_nonneg: "0 \<le> x \<Longrightarrow> 0 \<le> double_to_int x"
  by (simp add: double_to_int_def)

lemma padded_size_div:
  assumes "0 < m" and "0 \<le> boost"
  shows "padded_size boost m sz =
     m * ((double_to_int (real_of_int (max 1 sz) * boost) + m - 1) div m)"
proof -
  have "0 \<le> real_of_int (max 1 sz) * boost" using assms(2) by simp
  then have "0 \<le> double_to_int (real_of_int (max 1 sz) * boost)"
    by (rule double_to_int_nonneg)
  then have "0 \<le> double_to_int (real_of_int (max 1 sz) * boost) + m - 1"
    using assms(1) by simp
  then have "(double_to_int (real_of_int (max 1 sz) * boost) + m - 1) sdiv m =
      (double_to_int (real_of_int (max 1 sz) * boost) + m - 1) div m"
    using assms(1) by (rule sdiv_nonneg)
  moreover have "(if sz < 1 then 1 else sz) = max 1 sz" by (simp add: max_def)
  ultimately show ?thesis by (simp add: padded_size_def Let_def)
qed

lemma init_tree_size_raw:
  assumes ok: "init_tree_size t n padded ncu m cur = Inr t'" and s: "s < ncu"
  shows "padded_tree_size t' ! s =
     padded_size (tree_size_boost t) m (raw_section_size ncu (init_noverlaps t n cur) s)"
proof -
  let ?nov = "init_noverlaps t n cur"
  let ?psum = "noverlaps_sum ?nov"
  let ?L = "per_section_load ncu ?nov"
  let ?sec = "\<lambda>i. section_index ?psum ?L i"
  from init_tree_size_Inr [OF ok] obtain cu natoms where
    asg: "assign_sections ?psum ?L [0..<n] (replicate n 0, replicate ncu 0) = Inr (cu, natoms)"
    and pts: "padded_tree_size t' =
      map (padded_size (tree_size_boost t) m) (section_sizes cu ?nov ncu)"
    by auto
  note asg_all = assign_sections_all [OF asg]
  have lnov: "length ?nov = n" by (simp add: init_noverlaps_def)
  have "filter (\<lambda>i. cu ! i = s) [0..<n] =
        filter (\<lambda>i. compute_unit_of_atom ncu ?nov i = int s) [0..<n]"
  proof (rule filter_cong [OF refl])
    fix i assume "i \<in> set [0..<n]"
    then have i: "i < n" by simp
    with asg_all(3) have "0 \<le> ?sec i" by simp
    moreover have "cu ! i = nat (?sec i)" using i by (simp add: asg_all(1))
    ultimately show "(cu ! i = s) = (compute_unit_of_atom ncu ?nov i = int s)"
      by (auto simp: compute_unit_of_atom_def)
  qed
  then have "section_sizes cu ?nov ncu ! s = raw_section_size ncu ?nov s"
    using s by (simp add: nth_section_sizes raw_section_size_def lnov)
  then show ?thesis using s by (simp add: pts)
qed

text \<open>C4. On an initialization that follows an earlier one (\<open>has_saved_noverlaps\<close> holds), the
  budget of atom \<open>i\<close> that \<^verbatim>\<open>init_tree_size\<close> uses is
  \<open>max (saved_noverlaps[i]) (noverlaps_current[i] + 1)\<close>; the new \<open>saved_noverlaps[i]\<close> is that
  value, which is at least the old one, so the budget never decreases from one initialization
  to the next.\<close>

theorem init_tree_size_budget_max:
  assumes "init_tree_size t n padded ncu m cur = Inr t'"
    and "has_saved_noverlaps t" and "i < n"
  shows "init_noverlaps t n cur ! i = max (saved_noverlaps t ! i) (cur ! i + 1)
       \<and> saved_noverlaps t' ! i = init_noverlaps t n cur ! i
       \<and> saved_noverlaps t ! i \<le> saved_noverlaps t' ! i
       \<and> has_saved_noverlaps t'"
proof -
  from init_tree_size_saved [OF assms(1)] assms(2)
  have sv: "saved_noverlaps t' = overlap_budget (saved_noverlaps t) cur n @ drop n (saved_noverlaps t)"
    and hs: "has_saved_noverlaps t'" by simp_all
  have nov: "init_noverlaps t n cur = overlap_budget (saved_noverlaps t) cur n"
    using assms(2) by (simp add: init_noverlaps_def)
  have b: "overlap_budget (saved_noverlaps t) cur n ! i = max (saved_noverlaps t ! i) (cur ! i + 1)"
    using assms(3) by (rule nth_overlap_budget)
  have "saved_noverlaps t' ! i = overlap_budget (saved_noverlaps t) cur n ! i"
    using assms(3) by (simp add: sv nth_append)
  with b hs show ?thesis by (simp add: nov)
qed

theorem init_tree_size_budget_max_witness:
  "\<exists>t'. init_tree_size (CudaOverlapTree\<lparr>has_saved_noverlaps := True,
                                          saved_noverlaps := [4, 1, 3, 8, 2]\<rparr>)
           5 8 3 4 [5, 0, 2, 7, 1, 0, 0, 0] = Inr t'
       \<and> saved_noverlaps t' ! 0 = 6 \<and> saved_noverlaps t' ! 1 = 1"
proof -
  let ?t = "CudaOverlapTree\<lparr>has_saved_noverlaps := True, saved_noverlaps := [4, 1, 3, 8, 2]\<rparr>"
  let ?cur = "[5, 0, 2, 7, 1, 0, 0, 0] :: int list"
  have "case init_tree_size ?t 5 8 3 4 ?cur of Inl f \<Rightarrow> False | Inr t' \<Rightarrow> True"
    by code_simp
  then obtain t' where h: "init_tree_size ?t 5 8 3 4 ?cur = Inr t'"
    using init_tree_size_ok_sum by blast
  have s: "has_saved_noverlaps ?t" by simp
  have "saved_noverlaps t' ! 0 = 6"
    using init_tree_size_budget_max [OF h s, of 0] by simp
  moreover have "saved_noverlaps t' ! 1 = 1"
    using init_tree_size_budget_max [OF h s, of 1] by simp
  ultimately show ?thesis using h by blast
qed

lemma section_count:
  assumes "cu = map (\<lambda>i. nat (f i)) [0..<n]" and "\<forall>i<n. 0 \<le> f i"
  shows "length (filter (\<lambda>x. x = s) cu) = length (filter (\<lambda>i. f i = int s) [0..<n])"
proof -
  have "length (filter (\<lambda>x. x = s) cu) = length (filter (\<lambda>i. nat (f i) = s) [0..<n])"
    by (simp add: assms(1) filter_map o_def)
  also have "filter (\<lambda>i. nat (f i) = s) [0..<n] = filter (\<lambda>i. f i = int s) [0..<n]"
    using assms(2) by (intro filter_cong) auto
  finally show ?thesis .
qed

text \<open>The layout on the runs of \<^verbatim>\<open>init_tree_size\<close> that stay within the vectors, that
  is, on which every section index is below the number of sections (and on a tree whose saved
  budgets are not negative, which holds for a new tree and is kept by every initialization).
  Then \<open>tree_pointer[s]\<close> is the sum of the padded sizes of the sections before \<open>s\<close>,
  \<open>total_tree_size\<close> is the sum of all padded sizes, \<open>natoms_in_tree[s]\<close> is the number of
  atoms whose section is \<open>s\<close>, \<open>first_atom[s]\<close> is the number of atoms in the sections before
  \<open>s\<close>, and for every atom \<open>i\<close>, with \<open>section(i)\<close> its \<open>compute_unit_of_atom\<close> entry,
  \<open>atom_tree_pointer[i] = tree_pointer[section(i)] + (i - first_atom[section(i)])\<close>.\<close>

lemma init_tree_size_layout_in_range:
  assumes ok: "init_tree_size t n padded ncu m cur = Inr t'"
    and nonneg: "\<forall>x\<in>set (saved_noverlaps t). 0 \<le> x"
  shows "(\<forall>s<ncu. tree_pointer t' ! s = sum_list (take s (padded_tree_size t')))
       \<and> total_tree_size t' = sum_list (padded_tree_size t')
       \<and> (\<forall>s<ncu. natoms_in_tree t' ! s =
             length (filter (\<lambda>i. compute_unit_of_atom ncu (init_noverlaps t n cur) i = int s)
                       [0..<n]))
       \<and> (\<forall>s<ncu. first_atom t' ! s = sum_list (take s (natoms_in_tree t')))
       \<and> (\<forall>i<n. 0 \<le> compute_unit_of_atom ncu (init_noverlaps t n cur) i
              \<and> compute_unit_of_atom ncu (init_noverlaps t n cur) i < int ncu
              \<and> atom_tree_pointer t' ! i =
                  tree_pointer t' ! nat (compute_unit_of_atom ncu (init_noverlaps t n cur) i)
                  + (int i - int (first_atom t' ! nat (compute_unit_of_atom ncu (init_noverlaps t n cur) i))))
       \<and> (\<forall>x\<in>set (saved_noverlaps t'). 0 \<le> x)"
proof -
  let ?nov = "init_noverlaps t n cur"
  let ?psum = "noverlaps_sum ?nov"
  let ?L = "per_section_load ncu ?nov"
  let ?sec = "\<lambda>i. section_index ?psum ?L i"
  from init_tree_size_Inr [OF ok] obtain cu natoms ao where
    asg: "assign_sections ?psum ?L [0..<n] (replicate n 0, replicate ncu 0) = Inr (cu, natoms)"
    and pad: "n \<le> padded"
    and tp: "tree_pointer t' = tree_pointer_loop 0 (padded_tree_size t')"
    and lay: "layout_loop natoms (tree_pointer t') (padded_tree_size t') n ncu padded =
      (ao, total_tree_size t', first_atom t', atom_tree_pointer t')"
    and lenp: "length (padded_tree_size t') = ncu"
    and nat': "natoms_in_tree t' = natoms"
    by auto
  from init_tree_size_Inr [OF ok] have lens: "n \<le> length cur" by auto
  have lnov: "length ?nov = n" by (simp add: init_noverlaps_def)
  have sv: "n \<le> length (saved_noverlaps t) \<or> \<not> has_saved_noverlaps t"
    using ok by (auto simp: init_tree_size_def Let_def split: if_splits)
  have novpos: "\<forall>x\<in>set ?nov. 0 \<le> x"
    using nonneg sv by (rule init_noverlaps_nonneg)
  note asg_all = assign_sections_all [OF asg]
  have cu: "cu = map (\<lambda>i. nat (?sec i)) [0..<n]" by (rule asg_all(1))
  have natoms: "natoms = map (\<lambda>s. length (filter (\<lambda>x. x = s) cu)) [0..<ncu]"
    by (rule asg_all(2))
  have rng: "\<forall>i<n. 0 \<le> ?sec i \<and> ?sec i < int ncu" by (rule asg_all(3))
  have lenn: "length natoms = ncu" using natoms by simp
  have offs: "sum_list (take k natoms) = length (filter (\<lambda>x. x < k) cu)" if "k \<le> ncu" for k
  proof -
    have "take k natoms = map (\<lambda>s. length (filter (\<lambda>x. x = s) cu)) [0..<k]"
      using that by (simp add: natoms take_map take_upt)
    then show ?thesis by (simp add: sum_counts_below)
  qed
  have sorted_cu: "sorted cu"
  proof (cases "n = 0")
    case True
    then show ?thesis by (simp add: cu)
  next
    case False
    then have "?L \<noteq> 0" using asg_all(4) by simp
    with per_section_load_nonneg [of ncu ?nov] have Lpos: "0 < ?L" by simp
    have "cu ! i \<le> cu ! j" if "i \<le> j" "j < length cu" for i j
    proof -
      from that cu have ij: "i < n" "j < n" by simp_all
      have pi: "?psum ! i = sum_list (take i ?nov)" and pj: "?psum ! j = sum_list (take j ?nov)"
        using ij lnov by (simp_all add: nth_noverlaps_sum)
      have "0 \<le> sum_list (take i ?nov)"
        using novpos by (auto intro!: sum_list_nonneg dest!: in_set_takeD)
      moreover have "sum_list (take i ?nov) \<le> sum_list (take j ?nov)"
        using novpos that(1) by (rule sum_list_take_mono)
      ultimately have "?sec i \<le> ?sec j"
        using Lpos by (simp add: section_index_def pi pj sdiv_nonneg zdiv_mono1)
      then show ?thesis using ij by (simp add: cu)
    qed
    then show ?thesis by (simp add: sorted_iff_nth_mono)
  qed
  from layout_fold [of ncu ncu natoms "padded_tree_size t'" "tree_pointer t'" n padded] lenn lenp lay
  have tts: "total_tree_size t' = sum_list (padded_tree_size t')"
    and fa: "\<forall>s<ncu. first_atom t' ! s = sum_list (take s natoms)"
    and atp: "\<forall>s<ncu. \<forall>j. sum_list (take s natoms) \<le> j \<longrightarrow> j < sum_list (take (Suc s) natoms)
            \<longrightarrow> j < n \<longrightarrow> j < padded
            \<longrightarrow> atom_tree_pointer t' ! j = tree_pointer t' ! s + int (j - sum_list (take s natoms))"
    by (auto simp: layout_loop_def)
  have tps: "\<forall>s<ncu. tree_pointer t' ! s = sum_list (take s (padded_tree_size t'))"
    using lenp by (simp add: tp nth_tree_pointer_loop)
  have atoms: "0 \<le> compute_unit_of_atom ncu ?nov i \<and> compute_unit_of_atom ncu ?nov i < int ncu
              \<and> atom_tree_pointer t' ! i =
                  tree_pointer t' ! nat (compute_unit_of_atom ncu ?nov i)
                  + (int i - int (first_atom t' ! nat (compute_unit_of_atom ncu ?nov i)))"
    if i: "i < n" for i
  proof -
    have cua: "compute_unit_of_atom ncu ?nov i = ?sec i" by (simp add: compute_unit_of_atom_def)
    from rng i have r: "0 \<le> ?sec i" "?sec i < int ncu" by simp_all
    let ?s = "nat (?sec i)"
    have s: "?s < ncu" using r by simp
    have cui: "cu ! i = ?s" using i by (simp add: cu)
    have li: "i < length cu" using i by (simp add: cu)
    from sorted_count_below [OF sorted_cu li] cui
    have "length (filter (\<lambda>x. x < ?s) cu) \<le> i" "i < length (filter (\<lambda>x. x < Suc ?s) cu)"
      by simp_all
    with offs [of ?s] offs [of "Suc ?s"] s
    have lo: "sum_list (take ?s natoms) \<le> i" and hi: "i < sum_list (take (Suc ?s) natoms)"
      by simp_all
    from atp s lo hi i pad
    have "atom_tree_pointer t' ! i = tree_pointer t' ! ?s + int (i - sum_list (take ?s natoms))"
      by simp
    moreover from fa s have "first_atom t' ! ?s = sum_list (take ?s natoms)" by simp
    ultimately show ?thesis using r lo by (simp add: cua)
  qed
  have cnt: "\<forall>s<ncu. natoms_in_tree t' ! s =
             length (filter (\<lambda>i. compute_unit_of_atom ncu ?nov i = int s) [0..<n])"
  proof (intro allI impI)
    fix s assume s: "s < ncu"
    from rng have "\<forall>i<n. 0 \<le> ?sec i" by simp
    from section_count [OF cu this, of s] s
    show "natoms_in_tree t' ! s =
             length (filter (\<lambda>i. compute_unit_of_atom ncu ?nov i = int s) [0..<n])"
      by (simp add: nat' natoms compute_unit_of_atom_def)
  qed
  have fat: "\<forall>s<ncu. first_atom t' ! s = sum_list (take s (natoms_in_tree t'))"
    using fa by (simp add: nat')
  have "\<forall>x\<in>set (saved_noverlaps t'). 0 \<le> x"
    using init_tree_size_saved [OF ok] novpos nonneg
    by (auto simp: init_noverlaps_def dest!: in_set_dropD)
  with tps tts atoms cnt fat show ?thesis by blast
qed

text \<open>Five atoms in three sections, on a tree with saved budgets.\<close>

lemma init_tree_size_layout_in_range_example:
  "\<exists>t'. init_tree_size (CudaOverlapTree\<lparr>has_saved_noverlaps := True,
                                          saved_noverlaps := [4, 1, 3, 8, 2]\<rparr>)
           5 8 3 4 [5, 0, 2, 7, 1, 0, 0, 0] = Inr t'
       \<and> tree_pointer t' ! 1 = sum_list (take 1 (padded_tree_size t'))
       \<and> total_tree_size t' = sum_list (padded_tree_size t')
       \<and> atom_tree_pointer t' ! 3 = tree_pointer t' ! 1 + (3 - int (first_atom t' ! 1))"
proof -
  let ?t = "CudaOverlapTree\<lparr>has_saved_noverlaps := True, saved_noverlaps := [4, 1, 3, 8, 2]\<rparr>"
  let ?cur = "[5, 0, 2, 7, 1, 0, 0, 0] :: int list"
  have "case init_tree_size ?t 5 8 3 4 ?cur of Inl f \<Rightarrow> False | Inr t' \<Rightarrow> True"
    by code_simp
  then obtain t' where h: "init_tree_size ?t 5 8 3 4 ?cur = Inr t'"
    using init_tree_size_ok_sum by blast
  have nn: "\<forall>x\<in>set (saved_noverlaps ?t). 0 \<le> x" by simp
  have c: "compute_unit_of_atom 3 (init_noverlaps ?t 5 ?cur) 3 = 1" by code_simp
  note th = init_tree_size_layout_in_range [OF h nn]
  from th have "tree_pointer t' ! 1 = sum_list (take 1 (padded_tree_size t'))" by simp
  moreover from th have "total_tree_size t' = sum_list (padded_tree_size t')" by simp
  moreover from th have "atom_tree_pointer t' ! 3 =
       tree_pointer t' ! nat (compute_unit_of_atom 3 (init_noverlaps ?t 5 ?cur) 3)
        + (int 3 - int (first_atom t' ! nat (compute_unit_of_atom 3 (init_noverlaps ?t 5 ?cur) 3)))"
    by simp
  then have "atom_tree_pointer t' ! 3 = tree_pointer t' ! 1 + (3 - int (first_atom t' ! 1))"
    unfolding c by simp
  ultimately show ?thesis using h by blast
qed

text \<open>C7 fails on the code, by the defect of C6. With 10 atoms of one overlap each (budget
  2) and 8 sections the total is 20 and the load per section is \<open>max (20 div 7) 2 = 2\<close>; the
  prefix sums of the atoms 8 and 9 are 16 and 18 and their section indices 8 and 9, which
  are not among the sections 0 to 7: there is no \<open>tree_pointer[section(i)]\<close> for them, and
  \<^verbatim>\<open>natoms_in_tree[8] += 1\<close> writes past the end of the vector, so that the run is
  undefined. By then the loop has given one atom to each of the eight sections: a run that
  goes on past the write lays out the atoms 0 to 7 in the loop of lines 303-316, which walks
  the sections, and writes no slot for the atoms 8 and 9.\<close>

theorem init_tree_size_layout_overflow:
  "init_tree_size CudaOverlapTree 10 32 8 64 (replicate 10 1 @ replicate 22 0)
     = Inl Index_out_of_range
   \<and> compute_unit_of_atom 8
       (init_noverlaps CudaOverlapTree 10 (replicate 10 1 @ replicate 22 0)) 8 = 8
   \<and> compute_unit_of_atom 8
       (init_noverlaps CudaOverlapTree 10 (replicate 10 1 @ replicate 22 0)) 9 = 9
   \<and> assign_sections
        (noverlaps_sum (init_noverlaps CudaOverlapTree 10 (replicate 10 1 @ replicate 22 0)))
        (per_section_load 8 (init_noverlaps CudaOverlapTree 10 (replicate 10 1 @ replicate 22 0)))
        [0..<8] (replicate 10 0, replicate 8 0)
       = Inr ([0, 1, 2, 3, 4, 5, 6, 7, 0, 0], [1, 1, 1, 1, 1, 1, 1, 1])"
  by code_simp

text \<open>C6 fails on the code. With 17 atoms of 4 overlaps each (budget 5) and 16 sections the
  total is 85, the load per section is \<open>max (85 div 15) 5 = 5\<close>, the prefix sum of the last
  atom is 80 and its section index is 16, which is not below the 16 sections:
  \<^verbatim>\<open>natoms_in_tree[16] += 1\<close> writes past the end of the vector. The same happens with 5
  atoms without overlaps and 4 sections.\<close>

theorem init_tree_size_section_index_overflow:
  "compute_unit_of_atom 16
     (init_noverlaps CudaOverlapTree 17 (replicate 17 4 @ replicate 15 0)) 16 = 16
   \<and> init_tree_size CudaOverlapTree 17 32 16 64 (replicate 17 4 @ replicate 15 0)
       = Inl Index_out_of_range
   \<and> compute_unit_of_atom 4 (init_noverlaps CudaOverlapTree 5 (replicate 32 0)) 4 = 4
   \<and> init_tree_size CudaOverlapTree 5 32 4 32 (replicate 32 0) = Inl Index_out_of_range"
  by code_simp

section \<open>Properties of \<^verbatim>\<open>execute\<close>\<close>

lemma executeInitKernels_Inr:
  assumes "executeInitKernels dev (k, cu) = Inr (k0, cu0)"
  shows "cu0 = cu \<and> (\<exists>t t1. gtree k = Some t
      \<and> init_tree_size t (numAtoms cu) (paddedNumAtoms cu) (numForceThreadBlocks cu)
            (forceThreadBlockSize cu) (gaussvol_noverlaps dev) = Inr t1
      \<and> gtree k0 = Some (resize_tree_buffers t1 (forceThreadBlockSize cu)))
      \<and> numParticles k0 = numParticles k \<and> useCutoff k0 = useCutoff k"
  using assms
  by (auto simp: executeInitKernels_def Let_def split: option.splits if_splits sum.splits)

lemma executeGVolSA_Inr:
  assumes "executeGVolSA dev (k1, cu1) = Inr (e, k', cu')"
  shows "e = 0 \<and> (\<exists>t. gtree k1 = Some t \<and>
     (if fst (panic_values dev) > 0
      then launched cu' = launched cu1 @ construction_kernels @ [resetSelfVolumesKernel]
         \<and> \<not> forcesValid cu' \<and> \<not> hasInitializedKernels k'
         \<and> gtree k' = Some (if snd (panic_values dev) > 0
                             then t\<lparr> hasExceededTempBuffer := True \<rparr> else t)
      else launched cu' = launched cu1 @ construction_kernels @ [resetSelfVolumesKernel]
                            @ reduction_kernels @ second_pass_kernels
         \<and> forcesValid cu' = forcesValid cu1
         \<and> hasInitializedKernels k' = hasInitializedKernels k1
         \<and> gtree k' = Some t))
     \<and> numAtoms cu' = numAtoms cu1 \<and> paddedNumAtoms cu' = paddedNumAtoms cu1
     \<and> numForceThreadBlocks cu' = numForceThreadBlocks cu1
     \<and> forceThreadBlockSize cu' = forceThreadBlockSize cu1"
  using assms
  by (auto simp: executeGVolSA_def Let_def launch_def split: option.splits if_splits sum.splits)

lemma execute_Inr:
  assumes "execute dev (k, cu) = Inr (e, k', cu')"
  shows "e = 0 \<and> (\<exists>k1.
     ((\<not> hasCreatedKernels k \<or> \<not> hasInitializedKernels k)
        \<and> (\<exists>k0. executeInitKernels dev (k, cu) = Inr (k0, cu)
               \<and> k1 = k0\<lparr> hasInitializedKernels := True, hasCreatedKernels := True \<rparr>)
      \<or> hasCreatedKernels k \<and> hasInitializedKernels k \<and> k1 = k)
     \<and> executeGVolSA dev (k1, cu) = Inr (0, k', cu'))"
proof -
  from assms obtain k1 cu1 e1 where
    a: "(if \<not> hasCreatedKernels k \<or> \<not> hasInitializedKernels k
           then (case executeInitKernels dev (k, cu) of
                   Inl f \<Rightarrow> Inl f
                 | Inr (k, cu) \<Rightarrow>
                     Inr (k\<lparr> hasInitializedKernels := True, hasCreatedKernels := True \<rparr>, cu))
           else Inr (k, cu)) = Inr (k1, cu1)"
    and b: "executeGVolSA dev (k1, cu1) = Inr (e1, k', cu')" and e: "e = 0"
    by (auto simp: execute_def split: sum.splits prod.splits)
  from executeGVolSA_Inr [OF b] have e1: "e1 = 0" by simp
  show ?thesis
  proof (cases "\<not> hasCreatedKernels k \<or> \<not> hasInitializedKernels k")
    case True
    with a obtain k0 cu0 where i: "executeInitKernels dev (k, cu) = Inr (k0, cu0)"
      and k1: "k1 = k0\<lparr> hasInitializedKernels := True, hasCreatedKernels := True \<rparr>"
      and cu1: "cu1 = cu0"
      by (auto split: sum.splits prod.splits)
    from executeInitKernels_Inr [OF i] have "cu0 = cu" by simp
    with True i k1 cu1 b e e1 show ?thesis by auto
  next
    case False
    with a b e e1 show ?thesis by auto
  qed
qed

lemma resize_tree_buffers_boost [simp]:
  "tree_size_boost (resize_tree_buffers t w) = tree_size_boost t"
  by (simp add: resize_tree_buffers_def Let_def)

lemma execute_tree_size_boost:
  assumes "execute dev (k, cu) = Inr (e, k', cu')" and "gtree k = Some t0"
  shows "\<exists>t1. gtree k' = Some t1 \<and> tree_size_boost t1 = tree_size_boost t0"
proof -
  from execute_Inr [OF assms(1)] obtain k1 where
    k1: "(\<not> hasCreatedKernels k \<or> \<not> hasInitializedKernels k)
        \<and> (\<exists>k0. executeInitKernels dev (k, cu) = Inr (k0, cu)
               \<and> k1 = k0\<lparr> hasInitializedKernels := True, hasCreatedKernels := True \<rparr>)
      \<or> hasCreatedKernels k \<and> hasInitializedKernels k \<and> k1 = k"
    and g: "executeGVolSA dev (k1, cu) = Inr (0, k', cu')" by blast
  from k1 have "(\<exists>k0. executeInitKernels dev (k, cu) = Inr (k0, cu)
               \<and> k1 = k0\<lparr> hasInitializedKernels := True, hasCreatedKernels := True \<rparr>)
      \<or> k1 = k" by blast
  then have "\<exists>t. gtree k1 = Some t \<and> tree_size_boost t = tree_size_boost t0"
  proof (elim disjE conjE exE)
    fix k0 assume i: "executeInitKernels dev (k, cu) = Inr (k0, cu)"
      and e: "k1 = k0\<lparr> hasInitializedKernels := True, hasCreatedKernels := True \<rparr>"
    from executeInitKernels_Inr [OF i] assms(2) obtain t1 where
      it: "init_tree_size t0 (numAtoms cu) (paddedNumAtoms cu) (numForceThreadBlocks cu)
            (forceThreadBlockSize cu) (gaussvol_noverlaps dev) = Inr t1"
      and g0: "gtree k0 = Some (resize_tree_buffers t1 (forceThreadBlockSize cu))" by auto
    from init_tree_size_Inr [OF it] have "tree_size_boost t1 = tree_size_boost t0" by auto
    with g0 e show ?thesis by simp
  next
    assume "k1 = k"
    with assms(2) show ?thesis by simp
  qed
  then obtain t where t: "gtree k1 = Some t" "tree_size_boost t = tree_size_boost t0" by blast
  from executeGVolSA_Inr [OF g] t show ?thesis
    by (auto split: if_splits)
qed

text \<open>C5, as the code has it. The padded capacity of section \<open>s\<close> is its raw size (the sum of
  the budgets of its member atoms, taken as at least 1) multiplied by \<open>tree_size_boost\<close>,
  converted back to \<^verbatim>\<open>int\<close>, and rounded up to the next multiple of the pad modulus
  \<open>m > 0\<close>. The boost is 2 in a new tree, and neither \<^verbatim>\<open>init_tree_size\<close> nor
  \<^verbatim>\<open>resize_tree_buffers\<close> nor a call of \<^verbatim>\<open>execute\<close> changes it: it is not doubled on
  regrow.\<close>

theorem init_tree_size_padded_capacity:
  assumes "init_tree_size t n padded ncu m cur = Inr t'"
    and "0 < m" and "0 \<le> tree_size_boost t" and "s < ncu"
  shows "padded_tree_size t' ! s =
           m * ((double_to_int (real_of_int (max 1 (raw_section_size ncu (init_noverlaps t n cur) s))
                                * tree_size_boost t) + m - 1) div m)
       \<and> m dvd padded_tree_size t' ! s
       \<and> double_to_int (real_of_int (max 1 (raw_section_size ncu (init_noverlaps t n cur) s))
                         * tree_size_boost t) \<le> padded_tree_size t' ! s
       \<and> padded_tree_size t' ! s <
           double_to_int (real_of_int (max 1 (raw_section_size ncu (init_noverlaps t n cur) s))
                         * tree_size_boost t) + m
       \<and> tree_size_boost CudaOverlapTree = 2
       \<and> tree_size_boost t' = tree_size_boost t
       \<and> tree_size_boost (resize_tree_buffers t' w) = tree_size_boost t
       \<and> (\<forall>dev k cu e k' cu' t0.
             execute dev (k, cu) = Inr (e, k', cu') \<longrightarrow> gtree k = Some t0 \<longrightarrow>
             (\<exists>t1. gtree k' = Some t1 \<and> tree_size_boost t1 = tree_size_boost t0))"
proof -
  let ?tsize = "double_to_int (real_of_int (max 1 (raw_section_size ncu (init_noverlaps t n cur) s))
                                * tree_size_boost t)"
  have cap: "padded_tree_size t' ! s = m * ((?tsize + m - 1) div m)"
    using init_tree_size_raw [OF assms(1,4)] padded_size_div [OF assms(2,3)] by simp
  have b: "tree_size_boost t' = tree_size_boost t"
    using init_tree_size_Inr [OF assms(1)] by auto
  have c: "tree_size_boost CudaOverlapTree = 2" by (simp add: CudaOverlapTree_def)
  have x: "\<forall>dev k cu e k' cu' t0.
             execute dev (k, cu) = Inr (e, k', cu') \<longrightarrow> gtree k = Some t0 \<longrightarrow>
             (\<exists>t1. gtree k' = Some t1 \<and> tree_size_boost t1 = tree_size_boost t0)"
    using execute_tree_size_boost by blast
  have r: "m dvd m * ((?tsize + m - 1) div m)" "?tsize \<le> m * ((?tsize + m - 1) div m)"
    "m * ((?tsize + m - 1) div m) < ?tsize + m"
    using round_up_multiple [OF assms(2), of ?tsize] by simp_all
  from r have "m dvd padded_tree_size t' ! s" "?tsize \<le> padded_tree_size t' ! s"
    "padded_tree_size t' ! s < ?tsize + m"
    unfolding cap by simp_all
  with cap b c x show ?thesis by simp
qed

theorem init_tree_size_padded_capacity_witness:
  "\<exists>t' k' cu' t1.
     init_tree_size (CudaOverlapTree\<lparr>has_saved_noverlaps := True,
                                     saved_noverlaps := [4, 1, 3, 8, 2]\<rparr>)
           5 8 3 4 [5, 0, 2, 7, 1, 0, 0, 0] = Inr t'
     \<and> padded_tree_size t' ! 1 = 20 \<and> padded_tree_size t' ! 2 = 4
     \<and> tree_size_boost t' = 2
     \<and> execute example_panic (example_kernel, example_context) = Inr (0, k', cu')
     \<and> gtree example_kernel = Some CudaOverlapTree
     \<and> gtree k' = Some t1 \<and> tree_size_boost t1 = 2"
proof -
  let ?t = "CudaOverlapTree\<lparr>has_saved_noverlaps := True, saved_noverlaps := [4, 1, 3, 8, 2]\<rparr>"
  let ?cur = "[5, 0, 2, 7, 1, 0, 0, 0] :: int list"
  have "case init_tree_size ?t 5 8 3 4 ?cur of Inl f \<Rightarrow> False | Inr t' \<Rightarrow> True"
    by code_simp
  then obtain t' where h: "init_tree_size ?t 5 8 3 4 ?cur = Inr t'"
    using init_tree_size_ok_sum by blast
  have "result_energy (execute example_panic (example_kernel, example_context)) = Some 0"
    by code_simp
  then obtain k' cu' where
    x: "execute example_panic (example_kernel, example_context) = Inr (0, k', cu')"
    by (auto simp: result_energy_def split: sum.splits)
  have g: "gtree example_kernel = Some CudaOverlapTree" by code_simp
  have m: "(0::int) < 4" by simp
  have b: "0 \<le> tree_size_boost ?t" by (simp add: CudaOverlapTree_def)
  have r1: "raw_section_size 3 (init_noverlaps ?t 5 ?cur) 1 = 10" by code_simp
  have r2: "raw_section_size 3 (init_noverlaps ?t 5 ?cur) 2 = 0" by code_simp
  have bt: "tree_size_boost ?t = 2" by (simp add: CudaOverlapTree_def)
  have c2: "tree_size_boost CudaOverlapTree = 2" by (simp add: CudaOverlapTree_def)
  have s1: "(1::nat) < 3" and s2: "(2::nat) < 3" by simp_all
  note th1 = init_tree_size_padded_capacity [OF h m b s1, unfolded r1 bt]
  note th2 = init_tree_size_padded_capacity [OF h m b s2, unfolded r2 bt]
  have "padded_tree_size t' ! 1 = 20 \<and> tree_size_boost t' = 2"
    using th1 by (simp add: double_to_int_def)
  moreover have "padded_tree_size t' ! 2 = 4"
    using th2 by (simp add: double_to_int_def)
  moreover from th1 x g obtain t1 where "gtree k' = Some t1"
    "tree_size_boost t1 = tree_size_boost CudaOverlapTree" by blast
  ultimately show ?thesis using h x g c2 by auto
qed

text \<open>C5 as stated fails: after a step that set the panic button, the next call of
  \<^verbatim>\<open>execute\<close> sizes the tree again, with the boost still 2 and the same padded capacities
  as on a first call.\<close>

theorem tree_size_boost_regrow_counterexample:
  "map_option tree_size_boost (result_tree (execute example_device (example_kernel, example_context))) = Some 2
   \<and> map_option padded_tree_size
       (result_tree (execute example_device (example_kernel, example_context))) = Some [16, 4]
   \<and> map_option tree_size_boost (result_tree (execute example_device example_after_panic)) = Some 2
   \<and> map_option padded_tree_size
       (result_tree (execute example_device example_after_panic)) = Some [16, 4]
   \<and> \<not> hasInitializedKernels (fst example_after_panic)"
  by code_simp

text \<open>Every call of \<^verbatim>\<open>execute\<close> that returns, returns 0: the sums of the per-atom volume
  energies are locals of \<^verbatim>\<open>executeGVolSA\<close> that are not returned, and \<^verbatim>\<open>execute\<close>
  ends in \<^verbatim>\<open>return 0.0\<close>. On a step without panic every kernel of the two passes is
  launched and the validity of the forces is left as it was.\<close>

lemma execute_returns_zero:
  assumes "execute dev (k, cu) = Inr (e, k', cu')"
  shows "e = 0
     \<and> (\<not> 0 < fst (panic_values dev) \<longrightarrow>
          launched cu' = launched cu @ construction_kernels @ [resetSelfVolumesKernel]
                           @ reduction_kernels @ second_pass_kernels
          \<and> forcesValid cu' = forcesValid cu)"
proof -
  from execute_Inr [OF assms] obtain k1 where
    g: "executeGVolSA dev (k1, cu) = Inr (0, k', cu')" and e: "e = 0" by blast
  from executeGVolSA_Inr [OF g] e show ?thesis by (auto split: if_splits)
qed

lemma execute_returns_zero_example:
  "\<exists>k' cu'. execute example_device (example_kernel, example_context) = Inr (0, k', cu')
     \<and> \<not> 0 < fst (panic_values example_device)
     \<and> launched cu' = construction_kernels @ [resetSelfVolumesKernel]
                           @ reduction_kernels @ second_pass_kernels
     \<and> forcesValid cu'"
proof -
  have "result_energy (execute example_device (example_kernel, example_context)) = Some 0"
    by code_simp
  then obtain k' cu' where
    x: "execute example_device (example_kernel, example_context) = Inr (0, k', cu')"
    by (auto simp: result_energy_def split: sum.splits)
  have p: "\<not> 0 < fst (panic_values example_device)" by code_simp
  have l: "launched example_context = []" "forcesValid example_context" by code_simp+
  from execute_returns_zero [OF x] p l x show ?thesis by auto
qed



lemma init_tree_size_saved_mono:
  assumes "init_tree_size t n padded ncu m cur = Inr t1"
    and "has_saved_noverlaps t" and "i < n"
  shows "saved_noverlaps t ! i \<le> saved_noverlaps t1 ! i"
proof -
  from init_tree_size_saved [OF assms(1)] assms(2)
  have "saved_noverlaps t1 = overlap_budget (saved_noverlaps t) cur n @ drop n (saved_noverlaps t)"
    by simp
  then have "saved_noverlaps t1 ! i = max (saved_noverlaps t ! i) (cur ! i + 1)"
    using assms(3) by (simp add: nth_append nth_overlap_budget)
  then show ?thesis by simp
qed

lemma resize_tree_buffers_doubles:
  assumes "hasExceededTempBuffer t" and "0 < temp_buffer_size t"
  shows "temp_buffer_size (resize_tree_buffers t w) = 2 * temp_buffer_size t"
  using assms by (simp add: resize_tree_buffers_def Let_def)

lemma panic_launches_disjoint:
  "set (construction_kernels @ [resetSelfVolumesKernel])
     \<inter> (set reduction_kernels \<union> set (take 4 second_pass_kernels)) = {}"
  by (simp add: construction_kernels_def reduction_kernels_def second_pass_kernels_def)

text \<open>C2, as the code has it. When entry 0 of the downloaded panic button is positive,
  \<^verbatim>\<open>execute\<close> returns 0, marks the host forces invalid and clears
  \<^verbatim>\<open>hasInitializedKernels\<close>; it sets \<^verbatim>\<open>hasExceededTempBuffer\<close> when entry 1 is positive.
  The kernels launched in that step are those of the construction and
  \<^verbatim>\<open>resetSelfVolumesKernel\<close>, which is launched before the flag is read; neither
  \<^verbatim>\<open>computeSelfVolumesKernel\<close>, \<^verbatim>\<open>reduceSelfVolumesKernel_buffer\<close>,
  \<^verbatim>\<open>updateSelfVolumesForcesKernel\<close> nor the rescan kernels of the second pass are. The
  next call runs \<^verbatim>\<open>init_tree_size\<close> and \<^verbatim>\<open>resize_tree_buffers\<close> again: no saved budget
  decreases, and the temporary buffer size doubles when entry 1 was positive.\<close>

theorem execute_panic_recovery:
  assumes first: "execute dev (k, cu) = Inr (e, k', cu')"
    and panic: "0 < fst (panic_values dev)"
  shows "e = 0 \<and> \<not> forcesValid cu' \<and> \<not> hasInitializedKernels k'
     \<and> launched cu' = launched cu @ construction_kernels @ [resetSelfVolumesKernel]
     \<and> set (construction_kernels @ [resetSelfVolumesKernel])
          \<inter> (set reduction_kernels \<union> set (take 4 second_pass_kernels)) = {}
     \<and> (\<exists>t. gtree k' = Some t
          \<and> (0 < snd (panic_values dev) \<longrightarrow> hasExceededTempBuffer t)
          \<and> (\<forall>dev2 e2 k2 cu2. execute dev2 (k', cu') = Inr (e2, k2, cu2) \<longrightarrow>
               (\<exists>t1 t2.
                  init_tree_size t (numAtoms cu) (paddedNumAtoms cu) (numForceThreadBlocks cu)
                    (forceThreadBlockSize cu) (gaussvol_noverlaps dev2) = Inr t1
                  \<and> gtree k2 = Some t2
                  \<and> t2\<lparr> hasExceededTempBuffer := False \<rparr> =
                      resize_tree_buffers t1 (forceThreadBlockSize cu)
                  \<and> (has_saved_noverlaps t \<longrightarrow>
                       (\<forall>i<numAtoms cu. saved_noverlaps t ! i \<le> saved_noverlaps t2 ! i))
                  \<and> (0 < snd (panic_values dev) \<longrightarrow> 0 < temp_buffer_size t \<longrightarrow>
                       temp_buffer_size t2 = 2 * temp_buffer_size t))))"
proof -
  from execute_Inr [OF first] obtain k1 where
    g: "executeGVolSA dev (k1, cu) = Inr (0, k', cu')" and e: "e = 0" by blast
  from executeGVolSA_Inr [OF g] panic obtain t0 where
    l: "launched cu' = launched cu @ construction_kernels @ [resetSelfVolumesKernel]"
    and fv: "\<not> forcesValid cu'" and hi: "\<not> hasInitializedKernels k'"
    and gt: "gtree k' = Some (if snd (panic_values dev) > 0
                             then t0\<lparr> hasExceededTempBuffer := True \<rparr> else t0)"
    and same: "numAtoms cu' = numAtoms cu" "paddedNumAtoms cu' = paddedNumAtoms cu"
      "numForceThreadBlocks cu' = numForceThreadBlocks cu"
      "forceThreadBlockSize cu' = forceThreadBlockSize cu"
    by auto
  define t where "t = (if snd (panic_values dev) > 0
                       then t0\<lparr> hasExceededTempBuffer := True \<rparr> else t0)"
  have gt': "gtree k' = Some t" using gt by (simp add: t_def)
  have ex: "0 < snd (panic_values dev) \<longrightarrow> hasExceededTempBuffer t" by (simp add: t_def)
  have next_call: "\<exists>t1 t2.
        init_tree_size t (numAtoms cu) (paddedNumAtoms cu) (numForceThreadBlocks cu)
          (forceThreadBlockSize cu) (gaussvol_noverlaps dev2) = Inr t1
        \<and> gtree k2 = Some t2
        \<and> t2\<lparr> hasExceededTempBuffer := False \<rparr> = resize_tree_buffers t1 (forceThreadBlockSize cu)
        \<and> (has_saved_noverlaps t \<longrightarrow>
             (\<forall>i<numAtoms cu. saved_noverlaps t ! i \<le> saved_noverlaps t2 ! i))
        \<and> (0 < snd (panic_values dev) \<longrightarrow> 0 < temp_buffer_size t \<longrightarrow>
             temp_buffer_size t2 = 2 * temp_buffer_size t)"
    if second: "execute dev2 (k', cu') = Inr (e2, k2, cu2)" for dev2 e2 k2 cu2
  proof -
    from execute_Inr [OF second] hi obtain k0 where
      i: "executeInitKernels dev2 (k', cu') = Inr (k0, cu')"
      and g2: "executeGVolSA dev2
                 (k0\<lparr> hasInitializedKernels := True, hasCreatedKernels := True \<rparr>, cu')
               = Inr (0, k2, cu2)"
      by blast
    from executeInitKernels_Inr [OF i] gt' same obtain t1 where
      it: "init_tree_size t (numAtoms cu) (paddedNumAtoms cu) (numForceThreadBlocks cu)
              (forceThreadBlockSize cu) (gaussvol_noverlaps dev2) = Inr t1"
      and g0: "gtree k0 = Some (resize_tree_buffers t1 (forceThreadBlockSize cu))"
      by auto
    let ?r = "resize_tree_buffers t1 (forceThreadBlockSize cu)"
    from executeGVolSA_Inr [OF g2] g0 obtain t2 where
      g2': "gtree k2 = Some t2" and t2: "t2 = ?r \<or> t2 = ?r\<lparr> hasExceededTempBuffer := True \<rparr>"
      by (auto split: if_splits)
    have rf: "\<not> hasExceededTempBuffer ?r" by (simp add: resize_tree_buffers_def Let_def)
    from t2 rf have t2r: "t2\<lparr> hasExceededTempBuffer := False \<rparr> = ?r" by auto
    have sv2: "saved_noverlaps t2 = saved_noverlaps t1"
      using t2 by (auto simp: resize_tree_buffers_def Let_def)
    have tb2: "temp_buffer_size t2 = temp_buffer_size ?r" using t2 by auto
    have mono: "has_saved_noverlaps t \<longrightarrow>
                  (\<forall>i<numAtoms cu. saved_noverlaps t ! i \<le> saved_noverlaps t2 ! i)"
      using init_tree_size_saved_mono [OF it] by (simp add: sv2)
    from init_tree_size_Inr [OF it]
    have keep: "hasExceededTempBuffer t1 = hasExceededTempBuffer t"
      "temp_buffer_size t1 = temp_buffer_size t" by auto
    have dbl: "0 < snd (panic_values dev) \<longrightarrow> 0 < temp_buffer_size t \<longrightarrow>
                  temp_buffer_size t2 = 2 * temp_buffer_size t"
      using resize_tree_buffers_doubles [of t1 "forceThreadBlockSize cu"] ex keep
      by (simp add: tb2)
    from it g2' t2r mono dbl show ?thesis by blast
  qed
  from e fv hi l panic_launches_disjoint gt' ex next_call
  show ?thesis by blast
qed

theorem execute_panic_recovery_witness:
  "\<exists>k' cu' k2 cu2 t2.
     execute example_panic (example_kernel, example_context) = Inr (0, k', cu')
     \<and> 0 < fst (panic_values example_panic)
     \<and> execute example_device (k', cu') = Inr (0, k2, cu2)
     \<and> \<not> forcesValid cu' \<and> \<not> hasInitializedKernels k'
     \<and> launched cu' = construction_kernels @ [resetSelfVolumesKernel]
     \<and> gtree k2 = Some t2 \<and> temp_buffer_size t2 = 1024
     \<and> map_option saved_noverlaps (gtree k') = Some [3, 1, 3]
     \<and> 3 \<le> saved_noverlaps t2 ! 0"
proof -
  have "result_energy (execute example_panic (example_kernel, example_context)) = Some 0"
    by code_simp
  then obtain k' cu' where
    x: "execute example_panic (example_kernel, example_context) = Inr (0, k', cu')"
    by (auto simp: result_energy_def split: sum.splits)
  then have ap: "example_after_panic = (k', cu')" by (simp add: example_after_panic_def)
  have "result_energy (execute example_device example_after_panic) = Some 0"
    by code_simp
  then obtain k2 cu2 where
    y: "execute example_device (k', cu') = Inr (0, k2, cu2)"
    unfolding ap by (auto simp: result_energy_def split: sum.splits)
  have p: "0 < fst (panic_values example_panic)" "0 < snd (panic_values example_panic)"
    by code_simp+
  have l: "launched example_context = []" by code_simp
  have "map_option temp_buffer_size (gtree (fst example_after_panic)) = Some 512"
    by code_simp
  then have tb: "map_option temp_buffer_size (gtree k') = Some 512" by (simp add: ap)
  have "map_option saved_noverlaps (gtree (fst example_after_panic)) = Some [3, 1, 3]"
    "map_option has_saved_noverlaps (gtree (fst example_after_panic)) = Some True"
    by code_simp+
  then have sv: "map_option saved_noverlaps (gtree k') = Some [3, 1, 3]"
    "map_option has_saved_noverlaps (gtree k') = Some True" by (simp_all add: ap)
  have n: "numAtoms example_context = 3" by code_simp
  from execute_panic_recovery [OF x p(1)] y obtain t t2 where
    a: "\<not> forcesValid cu'" "\<not> hasInitializedKernels k'"
      "launched cu' = launched example_context @ construction_kernels @ [resetSelfVolumesKernel]"
    and b: "gtree k' = Some t" "gtree k2 = Some t2"
      "0 < snd (panic_values example_panic) \<longrightarrow> 0 < temp_buffer_size t \<longrightarrow>
                temp_buffer_size t2 = 2 * temp_buffer_size t"
    and m: "has_saved_noverlaps t \<longrightarrow>
                (\<forall>i<numAtoms example_context. saved_noverlaps t ! i \<le> saved_noverlaps t2 ! i)"
    by blast
  from b tb p(2) have "temp_buffer_size t2 = 1024" by simp
  moreover have "3 \<le> saved_noverlaps t2 ! 0"
  proof -
    from b(1) sv have hs: "has_saved_noverlaps t" and st: "saved_noverlaps t = [3, 1, 3]"
      by simp_all
    from m hs have "\<forall>i<numAtoms example_context. saved_noverlaps t ! i \<le> saved_noverlaps t2 ! i"
      by simp
    then have "saved_noverlaps t ! 0 \<le> saved_noverlaps t2 ! 0"
      unfolding n by (elim allE [of _ 0]) simp
    then show ?thesis by (simp add: st)
  qed
  ultimately show ?thesis using x p(1) y a b(2) l sv(1) by auto
qed

text \<open>C2 as stated fails: in the panic step \<^verbatim>\<open>resetSelfVolumesKernel\<close>, the first kernel
  of the reduction, is launched; and the tree that the next call builds has the per-atom
  budgets and the section capacities of the tree that overflowed.\<close>

theorem execute_panic_counterexample:
  "0 < fst (panic_values example_panic)
   \<and> result_launched (execute example_panic (example_kernel, example_context)) =
       Some [resetTreeKernel, resetBufferKernel, InitOverlapTreeKernel_1body_1,
             InitOverlapTreeCountKernel, reduceovCountBufferKernel, InitOverlapTreeKernel,
             resetComputeOverlapTreeKernel, ComputeOverlapTree_1passKernel,
             resetSelfVolumesKernel]
   \<and> map_option saved_noverlaps (gtree (fst example_after_panic)) = Some [3, 1, 3]
   \<and> map_option padded_tree_size (gtree (fst example_after_panic)) = Some [16, 4]
   \<and> map_option saved_noverlaps (result_tree (execute example_device example_after_panic))
       = Some [3, 1, 3]
   \<and> map_option padded_tree_size (result_tree (execute example_device example_after_panic))
       = Some [16, 4]"
  by code_simp

section \<open>Properties of \<^verbatim>\<open>initialize\<close> and \<^verbatim>\<open>copyParametersToContext\<close>\<close>

subsection \<open>The rounding\<close>

text \<open>The number of binary digits and the exponent: \<open>2^(b-1) \<le> n < 2^b\<close> for
  \<open>b = bit_length n\<close>, and \<open>2^e \<le> \<bar>x\<bar> < 2^(e+1)\<close> for \<open>e = binary_exponent x\<close>.\<close>

lemma bit_length_bounds:
  "0 < n \<Longrightarrow> 0 < bit_length n \<and> 2 ^ nat (bit_length n - 1) \<le> n \<and> n < 2 ^ nat (bit_length n)"
proof (induction n rule: bit_length.induct)
  case (1 n)
  have bl: "bit_length n = 1 + bit_length (n div 2)"
    using "1.prems" by (subst bit_length.simps) simp
  show ?case
  proof (cases "n div 2 = 0")
    case True
    then have n: "n = 1" using "1.prems" by linarith
    have "bit_length 1 = 1" by (simp add: bit_length.simps [of 1] bit_length.simps [of 0])
    then show ?thesis by (simp add: n)
  next
    case False
    with "1.prems" have pos: "0 < n div 2" by linarith
    from "1.IH" [OF _ pos] "1.prems"
    have ih: "0 < bit_length (n div 2)" "2 ^ nat (bit_length (n div 2) - 1) \<le> n div 2"
      "n div 2 < 2 ^ nat (bit_length (n div 2))" by simp_all
    let ?b = "bit_length (n div 2)"
    have e1: "nat (1 + ?b - 1) = Suc (nat (?b - 1))" using ih(1) by simp
    have e2: "nat (1 + ?b) = Suc (nat ?b)" using ih(1) by simp
    have "2 * (n div 2) \<le> n" "n \<le> 2 * (n div 2) + 1" by linarith+
    with ih show ?thesis unfolding bl e1 e2 by simp
  qed
qed

lemma pow2_powi: "pow2 e = 2 powi e"
  by (simp add: pow2_def power_int_def field_simps)

lemma pow2_pos [simp]: "0 < pow2 e"
  by (simp add: pow2_def)

lemma pow2_neq_0 [simp]: "pow2 e \<noteq> 0"
  by (simp add: pow2_def)

lemma binary_exponent_bounds:
  assumes "x \<noteq> 0"
  shows "pow2 (binary_exponent x) \<le> \<bar>x\<bar> \<and> \<bar>x\<bar> < pow2 (binary_exponent x + 1)"
proof (cases "1 \<le> \<bar>x\<bar>")
  case True
  let ?n = "\<lfloor>\<bar>x\<bar>\<rfloor>"
  from True have n: "0 < ?n" by linarith
  note b = bit_length_bounds [OF n]
  let ?b = "bit_length ?n"
  have e: "binary_exponent x = ?b - 1" using True by (simp add: binary_exponent_def)
  have lo: "(2::real) ^ nat (?b - 1) \<le> of_int ?n"
    using b by (metis of_int_le_iff of_int_numeral of_int_power)
  have hi: "of_int ?n + 1 \<le> (2::real) ^ nat ?b"
  proof -
    from b have "?n + 1 \<le> 2 ^ nat ?b" by simp
    then have "of_int (?n + 1) \<le> (of_int (2 ^ nat ?b) :: real)" by (simp only: of_int_le_iff)
    then show ?thesis by simp
  qed
  have "of_int ?n \<le> \<bar>x\<bar>" "\<bar>x\<bar> < of_int ?n + 1" by linarith+
  with lo hi have "2 ^ nat (?b - 1) \<le> \<bar>x\<bar>" "\<bar>x\<bar> < 2 ^ nat ?b" by linarith+
  with b show ?thesis by (simp add: e pow2_def)
next
  case False
  let ?y = "1 / \<bar>x\<bar>"
  from False assms have x: "0 < \<bar>x\<bar>" "\<bar>x\<bar> < 1" by simp_all
  then have y: "1 < ?y" by simp
  let ?m = "\<lceil>?y\<rceil> - 1"
  from y have m: "0 < ?m" by linarith
  note b = bit_length_bounds [OF m]
  let ?b = "bit_length ?m"
  have e: "binary_exponent x = - ?b" using False by (simp add: binary_exponent_def)
  have lo: "(2::real) ^ nat (?b - 1) \<le> of_int ?m"
    using b by (metis of_int_le_iff of_int_numeral of_int_power)
  have hi: "of_int ?m + 1 \<le> (2::real) ^ nat ?b"
  proof -
    from b have "?m + 1 \<le> 2 ^ nat ?b" by simp
    then have "of_int (?m + 1) \<le> (of_int (2 ^ nat ?b) :: real)" by (simp only: of_int_le_iff)
    then show ?thesis by simp
  qed
  have my: "of_int ?m < ?y" "?y \<le> of_int ?m + 1" by linarith+
  from my(2) hi have "?y \<le> 2 ^ nat ?b" by linarith
  then have l: "1 / 2 ^ nat ?b \<le> \<bar>x\<bar>"
    using x(1) by (simp add: field_simps)
  from my(1) lo have "2 ^ nat (?b - 1) < ?y" by linarith
  then have h: "\<bar>x\<bar> < 1 / 2 ^ nat (?b - 1)"
    using x(1) by (simp add: field_simps)
  have p1: "pow2 (- ?b) = 1 / 2 ^ nat ?b" using b by (simp add: pow2_def)
  have p2: "pow2 (- ?b + 1) = 1 / 2 ^ nat (?b - 1)"
  proof (cases "?b = 1")
    case True
    then show ?thesis by (simp add: pow2_def)
  next
    case False
    with b have "1 < ?b" by simp
    then show ?thesis by (simp add: pow2_def)
  qed
  from l h show ?thesis unfolding e p1 p2 by simp
qed

text \<open>The rounding to \<open>p\<close> significant bits gives a multiple \<open>m * 2^(e-p+1)\<close> of the unit
  of the last place with \<open>\<bar>m\<bar> \<le> 2^p\<close>, at most half a unit from \<open>x\<close>; it leaves the
  numbers \<open>m * 2^k\<close> with \<open>\<bar>m\<bar> < 2^p\<close>, the representable ones, as they are.\<close>

lemma round_half_even_nearest: "\<bar>of_int (round_half_even x) - x\<bar> \<le> 1/2"
  unfolding round_half_even_def Let_def by (auto; linarith)

lemma round_binary_nearest:
  "\<bar>round_binary p x - x\<bar> \<le> pow2 (binary_exponent x - int p + 1) / 2"
proof (cases "x = 0")
  case True
  then show ?thesis by (simp add: round_binary_def less_imp_le)
next
  case False
  let ?u = "pow2 (binary_exponent x - int p + 1)"
  have u: "0 < ?u" by simp
  have au: "\<bar>?u\<bar> = ?u" by (rule abs_of_pos) (rule pow2_pos)
  have eq: "round_binary p x - x = (of_int (round_half_even (x / ?u)) - x / ?u) * ?u"
    using False by (simp add: round_binary_def Let_def field_simps)
  have "\<bar>round_binary p x - x\<bar> = \<bar>of_int (round_half_even (x / ?u)) - x / ?u\<bar> * ?u"
    by (simp only: eq abs_mult au)
  also have "\<dots> \<le> 1/2 * ?u"
    using round_half_even_nearest [of "x / ?u"]
    by (intro mult_right_mono) (simp_all add: less_imp_le)
  finally show ?thesis by simp
qed

lemma pow2_abs [simp]: "\<bar>pow2 e\<bar> = pow2 e"
  by (rule abs_of_pos) (rule pow2_pos)

lemma pow2_add: "pow2 (a + b) = pow2 a * pow2 b"
  by (simp add: pow2_powi power_int_add)

lemma pow2_nat: "pow2 (int n) = 2 ^ n"
  by (simp add: pow2_def)

lemma pow2_mono: "a \<le> b \<Longrightarrow> pow2 a \<le> pow2 b"
  by (simp add: pow2_powi power_int_increasing)

lemma round_half_even_of_int: "round_half_even (of_int z) = z"
  by (simp add: round_half_even_def)

lemma round_half_even_between: "\<lfloor>x\<rfloor> \<le> round_half_even x \<and> round_half_even x \<le> \<lceil>x\<rceil>"
  unfolding round_half_even_def Let_def by (auto; linarith)

lemma round_binary_representable:
  assumes "\<bar>m\<bar> < 2 ^ p"
  shows "round_binary p (of_int m * pow2 k) = of_int m * pow2 k"
proof (cases "m = 0")
  case True
  then show ?thesis by (simp add: round_binary_def)
next
  case False
  define x where "x = of_int m * pow2 k"
  define e where "e = binary_exponent x"
  define u where "u = pow2 (e - int p + 1)"
  have x0: "x \<noteq> 0" using False by (simp add: x_def)
  from binary_exponent_bounds [OF x0] have lo: "pow2 e \<le> \<bar>x\<bar>" by (simp add: e_def)
  from assms have "of_int \<bar>m\<bar> < (of_int (2 ^ p) :: real)" by (simp only: of_int_less_iff)
  then have mp: "of_int \<bar>m\<bar> < (2 ^ p :: real)" by simp
  have "\<bar>x\<bar> = of_int \<bar>m\<bar> * pow2 k" by (simp add: x_def abs_mult)
  also have "\<dots> < 2 ^ p * pow2 k"
    using mp by (intro mult_strict_right_mono) simp_all
  also have "\<dots> = pow2 (int p + k)" by (simp add: pow2_add pow2_nat)
  finally have "pow2 e < pow2 (int p + k)" using lo by linarith
  then have less: "e < int p + k"
    using pow2_mono [of "int p + k" e] by linarith
  define j where "j = nat (k - (e - int p + 1))"
  have kj: "k = (e - int p + 1) + int j" using less by (simp add: j_def)
  have pk: "pow2 k = u * 2 ^ j" unfolding u_def by (subst kj) (simp only: pow2_add pow2_nat)
  have u0: "u \<noteq> 0" by (simp add: u_def)
  have "x / u = of_int (m * 2 ^ j)" using u0 by (simp add: x_def pk)
  then have r: "round_half_even (x / u) = m * 2 ^ j" by (simp only: round_half_even_of_int)
  have "round_binary p x = of_int (round_half_even (x / u)) * u"
    using x0 by (simp only: round_binary_def Let_def if_False e_def u_def)
  also have "\<dots> = of_int (m * 2 ^ j) * u" by (simp only: r)
  also have "\<dots> = x" by (simp add: x_def pk)
  finally show ?thesis by (simp only: x_def)
qed

lemma round_binary_significand:
  assumes "x \<noteq> 0"
  shows "\<bar>round_half_even (x / pow2 (binary_exponent x - int p + 1))\<bar> \<le> 2 ^ p"
proof -
  let ?e = "binary_exponent x"
  let ?u = "pow2 (?e - int p + 1)"
  let ?q = "x / ?u"
  have "pow2 (?e + 1) = pow2 ((?e - int p + 1) + int p)" by simp
  also have "\<dots> = ?u * 2 ^ p" by (simp only: pow2_add pow2_nat)
  finally have up: "pow2 (?e + 1) = ?u * 2 ^ p" .
  from binary_exponent_bounds [OF assms] have "\<bar>x\<bar> < ?u * 2 ^ p" by (simp add: up)
  then have "\<bar>x\<bar> / ?u < 2 ^ p" by (simp add: field_simps)
  then have "\<bar>?q\<bar> < 2 ^ p" by simp
  then have q: "?q \<le> 2 ^ p" "- (2 ^ p) \<le> ?q" by linarith+
  have "\<lceil>?q\<rceil> \<le> 2 ^ p" using q(1) by (simp add: ceiling_le_iff)
  moreover have "- (2 ^ p) \<le> \<lfloor>?q\<rfloor>" using q(2) by (simp add: le_floor_iff)
  ultimately show ?thesis using round_half_even_between [of ?q] by linarith
qed

subsection \<open>The outcome of \<^verbatim>\<open>initialize\<close>\<close>

lemma store_particle_fields [simp]:
  "common_gamma (store_particle i p k) = common_gamma k"
  "roffset (store_particle i p k) = roffset k"
  "vectors_hold n (store_particle i p k) = vectors_hold n k"
  by (simp_all add: store_particle_def vectors_hold_def Let_def split: prod.splits)

lemma vectors_hold_common_gamma [simp]:
  "vectors_hold n (k\<lparr> common_gamma := c \<rparr>) = vectors_hold n k"
  by (simp add: vectors_hold_def)

lemma throws_simps [simp]:
  "throws (Returns k) = False" "throws (Throws e k) = True" "throws (Undefined f) = False"
  "returns (Returns k) = True" "returns (Throws e k) = False" "returns (Undefined f) = False"
  by (simp_all add: throws_def returns_def)






lemma length_resize [simp]: "length (resize n xs) = n"
  by (simp add: resize_def)

lemma allocate_parameters_fields [simp]:
  "common_gamma (allocate_parameters cu k) = - 1"
  "roffset (allocate_parameters cu k) = roffset k"
  "vectors_hold n (allocate_parameters cu k) = (n \<le> paddedNumAtoms cu)"
  by (simp_all add: allocate_parameters_def vectors_hold_def Let_def)

lemma outcome_case_throws [simp]:
  "throws (case r of Undefined f \<Rightarrow> Undefined f | Throws e k \<Rightarrow> Throws e k
           | Returns k \<Rightarrow> Returns (g k)) = throws r"
  "returns (case r of Undefined f \<Rightarrow> Undefined f | Throws e k \<Rightarrow> Throws e k
           | Returns k \<Rightarrow> Returns (g k)) = returns r"
  by (cases r; simp)+






text \<open>The rounding decides. Two particles with the same coefficient near \<open>40000.0019\<close>:
  the \<^verbatim>\<open>float\<close> nearest to it is \<open>40000\<close>, the second particle is compared with that, and
  \<^verbatim>\<open>initialize\<close> throws although the two coefficients are equal; an arithmetic that
  rounds nothing returns. Coefficients \<open>1\<close> and near \<open>1.0009999999995\<close>: the squared
  difference is below \<open>1 / 10^6\<close> and above \<^verbatim>\<open>1.e-6f\<close>, and \<^verbatim>\<open>initialize\<close>
  throws.\<close>

lemma initialize_rounding_throws:
  "throws (initialize ieee_arith example_two_atoms (1/2000) example_equal_gammas
             CudaCalcGKCavitationForceKernel)
   \<and> to_float ieee_arith (round_binary 53 (400000019 / 10000)) = 40000
   \<and> returns (initialize exact_arith example_two_atoms (1/2000) example_equal_gammas
                CudaCalcGKCavitationForceKernel)
   \<and> throws (initialize ieee_arith example_two_atoms (1/2000) example_near_gammas
               CudaCalcGKCavitationForceKernel)
   \<and> squared_difference ieee_arith 1 (round_binary 53 (10009999999995 / 10000000000000))
       < 1 / 10 ^ 6
   \<and> float_1e_6
       < squared_difference ieee_arith 1 (round_binary 53 (10009999999995 / 10000000000000))"
  by code_simp

text \<open>On the three coefficients \<open>1\<close>, \<open>1 + 3/4096\<close> and \<open>1 - 3/4096\<close> the arithmetic of
  the machine rounds nothing, and \<^verbatim>\<open>initialize\<close> returns with it as it does without
  rounding.\<close>

lemma initialize_heterogeneous_rounded:
  "returns (initialize ieee_arith example_context (1/2000) example_three_gammas
              CudaCalcGKCavitationForceKernel)
   \<and> to_float ieee_arith 1 = 1
   \<and> squared_difference ieee_arith 1 (4099/2^12) = 9 / 2^24
   \<and> squared_difference ieee_arith 1 (4093/2^12) = 9 / 2^24"
  by code_simp

lemma store_gamma_fields [simp]:
  "roffset (store_gamma i p k) = roffset k"
  "radiusVector2 (store_gamma i p k) = radiusVector2 k"
  "ishydrogenVector (store_gamma i p k) = ishydrogenVector k"
  "length (gammaVector1 (store_gamma i p k)) = length (gammaVector1 k)"
  "length (gammaVector2 (store_gamma i p k)) = length (gammaVector2 k)"
  "vectors_hold n (store_gamma i p k) = vectors_hold n k"
  by (simp_all add: store_gamma_def vectors_hold_def Let_def split: prod.splits)


lemma store_gamma_nth:
  "gammaVector1 (store_gamma i (r, g, h) k) ! j =
     (if j = i \<and> i < length (gammaVector1 k) then (if h then 0 else g / roffset k)
      else gammaVector1 k ! j)"
  "gammaVector2 (store_gamma i (r, g, h) k) ! j =
     (if j = i \<and> i < length (gammaVector2 k) then - (if h then 0 else g / roffset k)
      else gammaVector2 k ! j)"
  by (auto simp: store_gamma_def Let_def nth_list_update list_update_beyond not_less)

text \<open>One round of the copy loop that does not stop.\<close>

lemma copy_loop_Cons_continue:
  assumes "copy_loop force (i # rest) k = Returns k' \<or> copy_loop force (i # rest) k = Throws e k'"
  shows "i < length (gammaVector1 k) \<and> i < length (gammaVector2 k)
     \<and> (copy_loop force (i # rest) k = Throws e k' \<and> k' = k
        \<or> copy_loop force (i # rest) k = copy_loop force rest (store_gamma i (particles force ! i) k))"
  using assms
  by (auto simp: Let_def split: if_splits prod.splits)


lemma copy_loop_gammas:
  assumes "copy_loop force idxs k = Returns k'" and "distinct idxs"
  shows "roffset k' = roffset k
     \<and> (\<forall>i\<in>set idxs. \<forall>r g h. particles force ! i = (r, g, h) \<longrightarrow>
            gammaVector1 k' ! i = (if h then 0 else g / roffset k)
          \<and> gammaVector2 k' ! i = - gammaVector1 k' ! i)
     \<and> (\<forall>j. j \<notin> set idxs \<longrightarrow> gammaVector1 k' ! j = gammaVector1 k ! j
                              \<and> gammaVector2 k' ! j = gammaVector2 k ! j)"
  using assms
proof (induction idxs arbitrary: k)
  case Nil
  then show ?case by simp
next
  case (Cons i rest)
  obtain r g h where p: "particles force ! i = (r, g, h)" by (cases "particles force ! i")
  let ?k = "store_gamma i (particles force ! i) k"
  from copy_loop_Cons_continue [of force i rest k k'] Cons.prems(1)
  have len: "i < length (gammaVector1 k)" "i < length (gammaVector2 k)"
    and step: "copy_loop force rest ?k = Returns k'" by auto
  from Cons.prems(2) have d: "distinct rest" "i \<notin> set rest" by simp_all
  from Cons.IH [OF step d(1)]
  have ro: "roffset k' = roffset k"
    and ih: "\<forall>j\<in>set rest. \<forall>r g h. particles force ! j = (r, g, h) \<longrightarrow>
            gammaVector1 k' ! j = (if h then 0 else g / roffset k)
          \<and> gammaVector2 k' ! j = - gammaVector1 k' ! j"
    and keep: "\<forall>j. j \<notin> set rest \<longrightarrow> gammaVector1 k' ! j = gammaVector1 ?k ! j
                              \<and> gammaVector2 k' ! j = gammaVector2 ?k ! j"
    by simp_all
  from keep d(2) have "gammaVector1 k' ! i = gammaVector1 ?k ! i"
    "gammaVector2 k' ! i = gammaVector2 ?k ! i" by simp_all
  with len have here: "gammaVector1 k' ! i = (if h then 0 else g / roffset k)"
    "gammaVector2 k' ! i = - gammaVector1 k' ! i"
    by (simp_all add: p store_gamma_nth)
  have other: "\<forall>j. j \<notin> set (i # rest) \<longrightarrow> gammaVector1 k' ! j = gammaVector1 k ! j
                              \<and> gammaVector2 k' ! j = gammaVector2 k ! j"
    using keep by (auto simp: p store_gamma_nth)
  from ro ih here other p show ?case by auto
qed


lemma store_particle_nth:
  "gammaVector1 (store_particle i (r, g, h) k) ! j =
     (if j = i \<and> i < length (gammaVector1 k) then (if h then 0 else g / roffset k)
      else gammaVector1 k ! j)"
  "gammaVector2 (store_particle i (r, g, h) k) ! j =
     (if j = i \<and> i < length (gammaVector2 k) then - (if h then 0 else g / roffset k)
      else gammaVector2 k ! j)"
  by (auto simp: store_particle_def Let_def nth_list_update list_update_beyond not_less)

lemma common_gamma_update_fields [simp]:
  "gammaVector1 (k\<lparr> common_gamma := c \<rparr>) = gammaVector1 k"
  "gammaVector2 (k\<lparr> common_gamma := c \<rparr>) = gammaVector2 k"
  "roffset (k\<lparr> common_gamma := c \<rparr>) = roffset k"
  by simp_all

lemma initialize_loop_Cons_Returns:
  assumes "initialize_loop fp force (i # rest) k = Returns k'"
  shows "i < length (gammaVector1 k) \<and> i < length (gammaVector2 k)
     \<and> (\<exists>k1. initialize_loop fp force rest k1 = Returns k'
            \<and> gammaVector1 k1 = gammaVector1 (store_particle i (particles force ! i) k)
            \<and> gammaVector2 k1 = gammaVector2 (store_particle i (particles force ! i) k)
            \<and> roffset k1 = roffset k)"
proof -
  let ?k = "store_particle i (particles force ! i) k"
  obtain r g h where p: "particles force ! i = (r, g, h)" by (cases "particles force ! i")
  from assms have len: "i < length (gammaVector1 k)" "i < length (gammaVector2 k)"
    by (auto split: if_splits)
  from assms have "initialize_loop fp force rest ?k = Returns k'
      \<or> initialize_loop fp force rest (?k\<lparr> common_gamma := to_float fp g \<rparr>) = Returns k'"
    by (auto simp: p Let_def split: if_splits)
  then have "\<exists>k1. initialize_loop fp force rest k1 = Returns k'
            \<and> gammaVector1 k1 = gammaVector1 ?k \<and> gammaVector2 k1 = gammaVector2 ?k
            \<and> roffset k1 = roffset k"
  proof
    assume "initialize_loop fp force rest ?k = Returns k'"
    then show ?thesis by (intro exI [of _ ?k]) simp
  next
    assume "initialize_loop fp force rest (?k\<lparr> common_gamma := to_float fp g \<rparr>) = Returns k'"
    then show ?thesis by (intro exI [of _ "?k\<lparr> common_gamma := to_float fp g \<rparr>"]) simp
  qed
  with len show ?thesis by simp
qed

lemma initialize_loop_gammas:
  assumes "initialize_loop fp force idxs k = Returns k'" and "distinct idxs"
  shows "roffset k' = roffset k
     \<and> (\<forall>i\<in>set idxs. \<forall>r g h. particles force ! i = (r, g, h) \<longrightarrow>
            gammaVector1 k' ! i = (if h then 0 else g / roffset k)
          \<and> gammaVector2 k' ! i = - gammaVector1 k' ! i)
     \<and> (\<forall>j. j \<notin> set idxs \<longrightarrow> gammaVector1 k' ! j = gammaVector1 k ! j
                              \<and> gammaVector2 k' ! j = gammaVector2 k ! j)"
  using assms
proof (induction idxs arbitrary: k)
  case Nil
  then show ?case by simp
next
  case (Cons i rest)
  obtain r g h where p: "particles force ! i = (r, g, h)" by (cases "particles force ! i")
  let ?k = "store_particle i (particles force ! i) k"
  from initialize_loop_Cons_Returns [OF Cons.prems(1)] obtain k1 where
    len: "i < length (gammaVector1 k)" "i < length (gammaVector2 k)"
    and step: "initialize_loop fp force rest k1 = Returns k'"
    and k1: "gammaVector1 k1 = gammaVector1 ?k" "gammaVector2 k1 = gammaVector2 ?k"
      "roffset k1 = roffset k"
    by blast
  from Cons.prems(2) have d: "distinct rest" "i \<notin> set rest" by simp_all
  from Cons.IH [OF step d(1)] k1
  have ro: "roffset k' = roffset k"
    and ih: "\<forall>j\<in>set rest. \<forall>r g h. particles force ! j = (r, g, h) \<longrightarrow>
            gammaVector1 k' ! j = (if h then 0 else g / roffset k)
          \<and> gammaVector2 k' ! j = - gammaVector1 k' ! j"
    and keep: "\<forall>j. j \<notin> set rest \<longrightarrow> gammaVector1 k' ! j = gammaVector1 ?k ! j
                              \<and> gammaVector2 k' ! j = gammaVector2 ?k ! j"
    by simp_all
  from keep d(2) have "gammaVector1 k' ! i = gammaVector1 ?k ! i"
    "gammaVector2 k' ! i = gammaVector2 ?k ! i" by simp_all
  with len have here: "gammaVector1 k' ! i = (if h then 0 else g / roffset k)"
    "gammaVector2 k' ! i = - gammaVector1 k' ! i"
    by (simp_all add: p store_particle_nth)
  have other: "\<forall>j. j \<notin> set (i # rest) \<longrightarrow> gammaVector1 k' ! j = gammaVector1 k ! j
                              \<and> gammaVector2 k' ! j = gammaVector2 k ! j"
    using keep by (auto simp: p store_particle_nth)
  from ro ih here other p show ?case by auto
qed

lemma initialize_Returns:
  assumes "initialize fp cu R force k0 = Returns k" and "0 < numAtoms cu"
  shows "\<exists>k1. initialize_loop fp force [0..<numAtoms cu]
                 (allocate_parameters cu (k0\<lparr> roffset := R, numParticles := numAtoms cu \<rparr>))
               = Returns k1 \<and> k = upload_parameters force k1"
  using assms
  by (auto simp: initialize_def Let_def split: if_splits outcome.splits)

lemma upload_parameters_fields [simp]:
  "gammaVector1 (upload_parameters force k) = gammaVector1 k"
  "gammaVector2 (upload_parameters force k) = gammaVector2 k"
  "gammaParam1 (upload_parameters force k) = Some (gammaVector1 k)"
  "gammaParam2 (upload_parameters force k) = Some (gammaVector2 k)"
  "roffset (upload_parameters force k) = roffset k"
  by (simp_all add: upload_parameters_def)

lemma copyParametersToContext_Returns:
  assumes "copyParametersToContext force k = Returns k'" and "0 < numParticles k"
  shows "\<exists>k1. copy_loop force [0..<numParticles k] k = Returns k1
       \<and> k' = k1\<lparr> gammaParam1 := Some (gammaVector1 k1), gammaParam2 := Some (gammaVector2 k1) \<rparr>
       \<and> length (particles force) = numParticles k"
  using assms
  by (auto simp: copyParametersToContext_def Let_def split: if_splits outcome.splits)

lemma returns_obtain: "returns r \<Longrightarrow> \<exists>k. r = Returns k"
  by (cases r) simp_all

text \<open>C9. After \<^verbatim>\<open>initialize\<close>, and after every \<^verbatim>\<open>copyParametersToContext\<close> that returns
  (on any kernel state), the first-pass gamma of an atom is \<open>gamma / roffset\<close>, or 0 for a
  hydrogen, the second-pass gamma is its negation, and the two device arrays hold the two
  vectors. \<^verbatim>\<open>copyParametersToContext\<close> keeps \<open>roffset\<close>.\<close>

theorem gamma_parameters_opposite:
  "(initialize fp cu R force k0 = Returns k \<longrightarrow> i < numAtoms cu \<longrightarrow>
      particles force ! i = (r, g, h) \<longrightarrow>
        gammaVector1 k ! i = (if h then 0 else g / R)
      \<and> gammaVector2 k ! i = - gammaVector1 k ! i
      \<and> gammaParam1 k = Some (gammaVector1 k) \<and> gammaParam2 k = Some (gammaVector2 k)
      \<and> roffset k = R)
   \<and> (copyParametersToContext force' kc = Returns kc' \<longrightarrow> j < numParticles kc \<longrightarrow>
      particles force' ! j = (r', g', h') \<longrightarrow>
        gammaVector1 kc' ! j = (if h' then 0 else g' / roffset kc)
      \<and> gammaVector2 kc' ! j = - gammaVector1 kc' ! j
      \<and> gammaParam1 kc' = Some (gammaVector1 kc') \<and> gammaParam2 kc' = Some (gammaVector2 kc')
      \<and> roffset kc' = roffset kc)"
proof (intro conjI impI)
  assume init: "initialize fp cu R force k0 = Returns k"
    and i: "i < numAtoms cu" and p: "particles force ! i = (r, g, h)"
  from i have n: "0 < numAtoms cu" by simp
  from initialize_Returns [OF init n] obtain k1 where
    l: "initialize_loop fp force [0..<numAtoms cu]
          (allocate_parameters cu (k0\<lparr> roffset := R, numParticles := numAtoms cu \<rparr>)) = Returns k1"
    and k: "k = upload_parameters force k1" by blast
  from initialize_loop_gammas [OF l] i p
  have a: "roffset k1 = R" "gammaVector1 k1 ! i = (if h then 0 else g / R)"
    "gammaVector2 k1 ! i = - gammaVector1 k1 ! i"
    by simp_all
  from a show "gammaVector1 k ! i = (if h then 0 else g / R)" by (simp add: k)
  from a show "gammaVector2 k ! i = - gammaVector1 k ! i" by (simp add: k)
  show "gammaParam1 k = Some (gammaVector1 k)" "gammaParam2 k = Some (gammaVector2 k)"
    by (simp_all add: k)
  from a show "roffset k = R" by (simp add: k)
next
  assume copy: "copyParametersToContext force' kc = Returns kc'"
    and j: "j < numParticles kc" and p: "particles force' ! j = (r', g', h')"
  from j have m: "0 < numParticles kc" by simp
  from copyParametersToContext_Returns [OF copy m] obtain k2 where
    c: "copy_loop force' [0..<numParticles kc] kc = Returns k2"
    and kc': "kc' = k2\<lparr> gammaParam1 := Some (gammaVector1 k2), gammaParam2 := Some (gammaVector2 k2) \<rparr>"
    by blast
  from copy_loop_gammas [OF c] j p
  have b: "roffset k2 = roffset kc" "gammaVector1 k2 ! j = (if h' then 0 else g' / roffset kc)"
    "gammaVector2 k2 ! j = - gammaVector1 k2 ! j"
    by simp_all
  from b show "gammaVector1 kc' ! j = (if h' then 0 else g' / roffset kc)" by (simp add: kc')
  from b show "gammaVector2 kc' ! j = - gammaVector1 kc' ! j" by (simp add: kc')
  show "gammaParam1 kc' = Some (gammaVector1 kc')" "gammaParam2 kc' = Some (gammaVector2 kc')"
    by (simp_all add: kc')
  from b show "roffset kc' = roffset kc" by (simp add: kc')
qed

theorem gamma_parameters_opposite_witness:
  "\<exists>k kc'.
     initialize exact_arith example_context (1/2000) example_force
       CudaCalcGKCavitationForceKernel = Returns k
     \<and> copyParametersToContext example_new_gammas k = Returns kc'
     \<and> gammaVector1 k ! 0 = 200 \<and> gammaVector2 k ! 0 = - 200
     \<and> gammaVector1 k ! 1 = 0 \<and> gammaVector2 k ! 1 = 0
     \<and> gammaVector1 kc' ! 0 = 400 \<and> gammaVector2 kc' ! 0 = - 400
     \<and> gammaVector1 kc' ! 1 = 0 \<and> gammaVector2 kc' ! 1 = 0
     \<and> gammaParam1 kc' = Some (gammaVector1 kc') \<and> gammaParam2 kc' = Some (gammaVector2 kc')"
proof -
  have "returns (initialize exact_arith example_context (1/2000) example_force
                   CudaCalcGKCavitationForceKernel)" by code_simp
  then obtain k where
    i: "initialize exact_arith example_context (1/2000) example_force
          CudaCalcGKCavitationForceKernel = Returns k"
    using returns_obtain by blast
  then have ek: "example_kernel = k" by (simp add: example_kernel_def)
  have "returns (copyParametersToContext example_new_gammas example_kernel)" by code_simp
  then obtain kc' where c: "copyParametersToContext example_new_gammas k = Returns kc'"
    unfolding ek using returns_obtain by blast
  have n: "(0::nat) < numAtoms example_context" "(1::nat) < numAtoms example_context"
    by code_simp+
  have "numParticles example_kernel = 3" "roffset example_kernel = 1/2000" by code_simp+
  then have m: "(0::nat) < numParticles k" "(1::nat) < numParticles k" and ro: "roffset k = 1/2000"
    by (simp_all add: ek)
  have p: "particles example_force ! 0 = (3/20, 1/10, False)"
    "particles example_force ! 1 = (1/10, 0, True)"
    "particles example_new_gammas ! 0 = (3/20, 1/5, False)"
    "particles example_new_gammas ! 1 = (1/10, 0, True)"
    by code_simp+
  note th0 = gamma_parameters_opposite [of exact_arith example_context "1/2000" example_force
      CudaCalcGKCavitationForceKernel k 0 "3/20" "1/10" False
      example_new_gammas k kc' 0 "3/20" "1/5" False]
  note th1 = gamma_parameters_opposite [of exact_arith example_context "1/2000" example_force
      CudaCalcGKCavitationForceKernel k 1 "1/10" 0 True
      example_new_gammas k kc' 1 "1/10" 0 True]
  from th0 th1 i c n m p ro show ?thesis by simp
qed

lemma store_particle_numParticles [simp]:
  "numParticles (store_particle i p k) = numParticles k"
  by (simp add: store_particle_def Let_def split: prod.splits)

lemma initialize_loop_keeps:
  assumes "initialize_loop fp force idxs k = Returns k'" and "vectors_hold n k"
  shows "vectors_hold n k' \<and> numParticles k' = numParticles k"
  using assms
proof (induction idxs arbitrary: k)
  case Nil
  then show ?case by simp
next
  case (Cons i rest)
  let ?k = "store_particle i (particles force ! i) k"
  obtain r g h where p: "particles force ! i = (r, g, h)" by (cases "particles force ! i")
  from Cons.prems(1) have "initialize_loop fp force rest ?k = Returns k'
      \<or> initialize_loop fp force rest (?k\<lparr> common_gamma := to_float fp g \<rparr>) = Returns k'"
    by (auto simp: p Let_def split: if_splits)
  then show ?case
  proof
    assume a: "initialize_loop fp force rest ?k = Returns k'"
    have "vectors_hold n ?k" using Cons.prems(2) by simp
    from Cons.IH [OF a this] show ?thesis by simp
  next
    assume a: "initialize_loop fp force rest (?k\<lparr> common_gamma := to_float fp g \<rparr>) = Returns k'"
    have "vectors_hold n (?k\<lparr> common_gamma := to_float fp g \<rparr>)" using Cons.prems(2) by simp
    from Cons.IH [OF a this] show ?thesis by simp
  qed
qed

text \<open>A kernel that \<^verbatim>\<open>initialize\<close> has set up for at least one atom meets the conditions
  under which \<^verbatim>\<open>copyParametersToContext\<close> is described below.\<close>

lemma initialize_establishes:
  assumes "initialize fp cu R force k0 = Returns k"
    and "0 < numAtoms cu" and "numAtoms cu \<le> paddedNumAtoms cu"
  shows "numParticles k = numAtoms cu \<and> vectors_hold (numParticles k) k
       \<and> gammaParam1 k \<noteq> None \<and> gammaParam2 k \<noteq> None"
proof -
  let ?k = "allocate_parameters cu (k0\<lparr> roffset := R, numParticles := numAtoms cu \<rparr>)"
  from initialize_Returns [OF assms(1,2)] obtain k1 where
    l: "initialize_loop fp force [0..<numAtoms cu] ?k = Returns k1"
    and k: "k = upload_parameters force k1" by blast
  have "vectors_hold (numAtoms cu) ?k" using assms(3) by simp
  from initialize_loop_keeps [OF l this]
  have "vectors_hold (numAtoms cu) k1" "numParticles k1 = numAtoms cu"
    by (simp_all add: allocate_parameters_def Let_def)
  then show ?thesis
    by (simp add: k upload_parameters_def vectors_hold_def)
qed



text \<open>C10. When the context has no atoms and a single context is in use, \<^verbatim>\<open>initialize\<close>
  returns the kernel with \<open>roffset\<close> and \<open>numParticles = 0\<close> set and nothing else changed: no
  device array, no overlap tree and no pinned page is created, no parameter is recorded.
  \<^verbatim>\<open>copyParametersToContext\<close> on a kernel without particles, with a force without
  particles, returns the kernel unchanged.\<close>

theorem zero_particles_no_effect:
  assumes "numAtoms cu = 0" and "contexts cu \<le> 1"
    and "numParticles k = 0" and "particles force' = []"
  shows "initialize fp cu R force k0 = Returns (k0\<lparr> roffset := R, numParticles := 0 \<rparr>)
       \<and> copyParametersToContext force' k = Returns k"
  using assms by (simp add: initialize_def copyParametersToContext_def)

theorem zero_particles_no_effect_witness:
  "numAtoms example_no_atoms = 0 \<and> contexts example_no_atoms \<le> 1
   \<and> numParticles CudaCalcGKCavitationForceKernel = 0
   \<and> particles example_no_particles = []
   \<and> initialize exact_arith example_no_atoms (1/2000) example_no_particles
         CudaCalcGKCavitationForceKernel
       = Returns (CudaCalcGKCavitationForceKernel\<lparr> roffset := 1/2000, numParticles := 0 \<rparr>)
   \<and> copyParametersToContext example_no_particles CudaCalcGKCavitationForceKernel
       = Returns CudaCalcGKCavitationForceKernel
   \<and> gtree (CudaCalcGKCavitationForceKernel\<lparr> roffset := 1/2000, numParticles := 0 \<rparr>) = None
   \<and> gammaParam1 (CudaCalcGKCavitationForceKernel\<lparr> roffset := 1/2000, numParticles := 0 \<rparr>) = None
   \<and> pinnedPanicButtonMemory
        (CudaCalcGKCavitationForceKernel\<lparr> roffset := 1/2000, numParticles := 0 \<rparr>) = None"
proof -
  have a: "numAtoms example_no_atoms = 0" "contexts example_no_atoms \<le> 1"
    "numParticles CudaCalcGKCavitationForceKernel = 0" "particles example_no_particles = []"
    by code_simp+
  have b: "gtree (CudaCalcGKCavitationForceKernel\<lparr> roffset := 1/2000, numParticles := 0 \<rparr>) = None"
    "gammaParam1 (CudaCalcGKCavitationForceKernel\<lparr> roffset := 1/2000, numParticles := 0 \<rparr>) = None"
    "pinnedPanicButtonMemory
        (CudaCalcGKCavitationForceKernel\<lparr> roffset := 1/2000, numParticles := 0 \<rparr>) = None"
    by (simp_all add: CudaCalcGKCavitationForceKernel_def)
  from zero_particles_no_effect [OF a, of exact_arith "1/2000" example_no_particles
      CudaCalcGKCavitationForceKernel] a b
  show ?thesis by simp
qed

end
